theory Spec2Isabelle
  imports Main
begin

section \<open>Strings\<close>

text \<open>
  Strings are lists of code units below 256 (the Latin-1 range of a JavaScript string);
  command names, printer names and the spooler's messages are ASCII.
\<close>

text \<open>\<^verbatim>\<open>String.prototype.toLowerCase\<close> on one code unit: A-Z, and the Latin-1 capitals.\<close>

definition toLowerCase_char :: "char \<Rightarrow> char" where
  "toLowerCase_char c =
     (let n = (of_char c :: nat)
      in if (65 \<le> n \<and> n \<le> 90) \<or> (192 \<le> n \<and> n \<le> 222 \<and> n \<noteq> 215)
         then char_of (n + 32) else c)"

definition toLowerCase :: "string \<Rightarrow> string" where
  "toLowerCase s = map toLowerCase_char s"

text \<open>\<^verbatim>\<open>s.startsWith(pat)\<close>, used by the literal parts of the patterns below.\<close>

definition startsWith :: "string \<Rightarrow> string \<Rightarrow> bool" where
  "startsWith s pat = (take (length pat) s = pat)"

text \<open>\<^verbatim>\<open>s.includes(pat)\<close>: a scan over every start offset.\<close>

fun str_includes :: "string \<Rightarrow> string \<Rightarrow> bool" where
  "str_includes [] pat = (pat = [])"
| "str_includes (c # cs) pat = (startsWith (c # cs) pat \<or> str_includes cs pat)"

text \<open>\<^verbatim>\<open>s.split("\n")\<close>: always at least one piece.\<close>

fun split_nl :: "string \<Rightarrow> string list" where
  "split_nl [] = [[]]"
| "split_nl (c # cs) =
     (if c = CHR 0x0A then [] # split_nl cs
      else (case split_nl cs of l # ls \<Rightarrow> (c # l) # ls | [] \<Rightarrow> [[c]]))"

text \<open>The regular expression dot matches everything but a line terminator.\<close>

definition is_line_terminator :: "char \<Rightarrow> bool" where
  "is_line_terminator c = (c = CHR 0x0A \<or> c = CHR 0x0D)"

definition dot :: "char \<Rightarrow> bool" where
  "dot c = (\<not> is_line_terminator c)"

text \<open>\<^verbatim>\<open>\d\<close> is 0-9.\<close>

definition is_digit :: "char \<Rightarrow> bool" where
  "is_digit c = (let n = (of_char c :: nat) in 48 \<le> n \<and> n \<le> 57)"

text \<open>White space removed by \<^verbatim>\<open>String.prototype.trim\<close>, in the Latin-1 range.\<close>

definition is_space :: "char \<Rightarrow> bool" where
  "is_space c = (let n = (of_char c :: nat) in (9 \<le> n \<and> n \<le> 13) \<or> n = 32 \<or> n = 160)"

definition trim :: "string \<Rightarrow> string" where
  "trim s = rev (dropWhile is_space (rev (dropWhile is_space s)))"

text \<open>A string between double quotes, as the template literals of the commands write it.\<close>

definition dquote :: "string \<Rightarrow> string" where
  "dquote s = CHR 0x22 # s @ [CHR 0x22]"

text \<open>
  \<^verbatim>\<open>Number.prototype.toString\<close> on a natural number below \<open>10^21\<close>, where JavaScript prints
  plain decimal digits (the value of \<^verbatim>\<open>Date.now()\<close> is in that range).
\<close>

fun decimal :: "nat \<Rightarrow> string" where
  "decimal n = (if n < 10 then [char_of (48 + n)] else decimal (n div 10) @ [char_of (48 + n mod 10)])"

declare decimal.simps [simp del]

section \<open>Regular expressions of the source\<close>

text \<open>
  \<^verbatim>\<open>s.match(re)\<close> without the global flag returns the leftmost match: the pattern is
  tried anchored at offset 0, then 1, and so on (also at the end of the string).
\<close>

fun search :: "(string \<Rightarrow> 'a option) \<Rightarrow> string \<Rightarrow> 'a option" where
  "search m [] = m []"
| "search m (c # cs) = (if m (c # cs) = None then search m cs else m (c # cs))"

text \<open>
  A lazy \<^verbatim>\<open>(.+?)\<close> followed by the rest of the pattern \<open>cont\<close>: the group takes one
  character, then one more each time the rest fails, and never a line terminator.
  \<open>acc\<close> is what the group has taken so far.
\<close>

fun lazy_plus :: "(string \<Rightarrow> 'a option) \<Rightarrow> string \<Rightarrow> string \<Rightarrow> (string \<times> 'a) option" where
  "lazy_plus cont acc [] =
     (if acc = [] then None else map_option (Pair acc) (cont []))"
| "lazy_plus cont acc (c # cs) =
     (if acc \<noteq> [] \<and> cont (c # cs) \<noteq> None then map_option (Pair acc) (cont (c # cs))
      else if dot c then lazy_plus cont (acc @ [c]) cs
      else None)"

text \<open>\<^verbatim>\<open>/printer (.+?) (.*)/\<close>: groups 1 and 2.\<close>

definition printer_tail :: "string \<Rightarrow> string option" where
  "printer_tail s = (case s of c # t \<Rightarrow> if c = CHR '' '' then Some (takeWhile dot t) else None
                     | [] \<Rightarrow> None)"

definition printer_re :: "string \<Rightarrow> (string \<times> string) option" where
  "printer_re s =
     (if startsWith s ''printer '' then lazy_plus printer_tail [] (drop 8 s) else None)"

text \<open>\<^verbatim>\<open>/device for (.+?): (.+)/\<close>: groups 1 and 2.\<close>

definition device_tail :: "string \<Rightarrow> string option" where
  "device_tail s =
     (if startsWith s '': '' then
        (let u = takeWhile dot (drop 2 s) in if u = [] then None else Some u)
      else None)"

definition device_re :: "string \<Rightarrow> (string \<times> string) option" where
  "device_re s =
     (if startsWith s ''device for '' then lazy_plus device_tail [] (drop 11 s) else None)"

text \<open>\<^verbatim>\<open>/system default destination: (.+)/\<close>: group 1.\<close>

definition default_re :: "string \<Rightarrow> string option" where
  "default_re s =
     (if startsWith s ''system default destination: '' then
        (let d = takeWhile dot (drop 28 s) in if d = [] then None else Some d)
      else None)"

text \<open>
  \<^verbatim>\<open>/request id is .+-(\d+)/\<close>: the greedy \<^verbatim>\<open>.+\<close> first takes the whole rest of the line
  and gives characters back one at a time until a hyphen and a digit follow; \<open>k\<close> is the
  number of characters it holds. Group 1 is the longest run of digits after the hyphen.
\<close>

definition dash_digit :: "string \<Rightarrow> bool" where
  "dash_digit s = (case s of h # d # _ \<Rightarrow> h = CHR ''-'' \<and> is_digit d | _ \<Rightarrow> False)"

fun greedy_dash :: "string \<Rightarrow> nat \<Rightarrow> string option" where
  "greedy_dash line 0 = None"
| "greedy_dash line (Suc k) =
     (if dash_digit (drop (Suc k) line)
      then Some (takeWhile is_digit (drop (Suc (Suc k)) line))
      else greedy_dash line k)"

definition request_id_re :: "string \<Rightarrow> string option" where
  "request_id_re s =
     (if startsWith s ''request id is '' then
        (let line = takeWhile dot (drop 14 s) in greedy_dash line (length line))
      else None)"

section \<open>The operating system\<close>

text \<open>A JavaScript \<^verbatim>\<open>Error\<close>: its message, and the \<^verbatim>\<open>code\<close> property when it has one.\<close>

datatype error = Error (code: "string option") (message: string)

text \<open>What the program does to the outside, in the order it does it.\<close>

datatype event =
    Exec string
  | WriteFile string
  | Unlink string
  | Access string
  | OnResume string
  | OnError error
  | PassBegin
  | SetTimeout nat
  | Unhandled error

text \<open>
  The world outside the program: the effects so far, the files on disk, how the shell
  answers a command (a rejection of \<^verbatim>\<open>execAsync\<close>, or stdout and stderr), which file
  operations fail, and the library values the program reads (\<^verbatim>\<open>os.tmpdir()\<close>,
  \<^verbatim>\<open>Date.now()\<close>, the token \<^verbatim>\<open>Math.random().toString(36).substring(7)\<close>, \<^verbatim>\<open>path.join\<close>,
  \<^verbatim>\<open>path.extname\<close>). Answers may depend on everything that happened before.
\<close>

record world =
  trace :: "event list"
  files :: "string set"
  respond :: "event list \<Rightarrow> string \<Rightarrow> error + string \<times> string"
  fs_fault :: "event list \<Rightarrow> event \<Rightarrow> error option"
  tmpdir :: string
  now :: "event list \<Rightarrow> nat"
  random_id :: "event list \<Rightarrow> string"
  path_join :: "string \<Rightarrow> string \<Rightarrow> string"
  path_extname :: "string \<Rightarrow> string"

text \<open>An asynchronous operation: it returns or throws, and changes the world.\<close>

type_synonym 'a io = "world \<Rightarrow> (error + 'a) \<times> world"

definition return :: "'a \<Rightarrow> 'a io" where
  "return x w = (Inr x, w)"

definition throw :: "error \<Rightarrow> 'a io" where
  "throw e w = (Inl e, w)"

definition bind :: "'a io \<Rightarrow> ('a \<Rightarrow> 'b io) \<Rightarrow> 'b io" where
  "bind m f w = (case m w of (Inl e, w') \<Rightarrow> (Inl e, w') | (Inr x, w') \<Rightarrow> f x w')"

definition try_catch :: "'a io \<Rightarrow> (error \<Rightarrow> 'a io) \<Rightarrow> 'a io" where
  "try_catch m h w = (case m w of (Inl e, w') \<Rightarrow> h e w' | (Inr x, w') \<Rightarrow> (Inr x, w'))"

text \<open>A \<^verbatim>\<open>finally\<close> block keeps the completion of the body unless it throws itself.\<close>

definition try_finally :: "'a io \<Rightarrow> unit io \<Rightarrow> 'a io" where
  "try_finally m fin w =
     (case m w of (r, w') \<Rightarrow>
        (case fin w' of (Inl e, w'') \<Rightarrow> (Inl e, w'') | (Inr _, w'') \<Rightarrow> (r, w'')))"

definition emit :: "event \<Rightarrow> world \<Rightarrow> world" where
  "emit ev w = w\<lparr>trace := trace w @ [ev]\<rparr>"

definition execAsync :: "string \<Rightarrow> (string \<times> string) io" where
  "execAsync command w = (respond w (trace w) command, emit (Exec command) w)"

definition enoent :: "string \<Rightarrow> string \<Rightarrow> error" where
  "enoent syscall p =
     Error (Some ''ENOENT'') (''ENOENT: no such file or directory, '' @ syscall @ '' '' @ p)"

definition writeFile :: "string \<Rightarrow> unit io" where
  "writeFile p w =
     (case fs_fault w (trace w) (WriteFile p) of
        Some e \<Rightarrow> (Inl e, emit (WriteFile p) w)
      | None \<Rightarrow> (Inr (), emit (WriteFile p) (w\<lparr>files := insert p (files w)\<rparr>)))"

definition unlink :: "string \<Rightarrow> unit io" where
  "unlink p w =
     (case fs_fault w (trace w) (Unlink p) of
        Some e \<Rightarrow> (Inl e, emit (Unlink p) w)
      | None \<Rightarrow>
          if p \<in> files w then (Inr (), emit (Unlink p) (w\<lparr>files := files w - {p}\<rparr>))
          else (Inl (enoent ''unlink'' p), emit (Unlink p) w))"

definition access :: "string \<Rightarrow> unit io" where
  "access p w =
     (case fs_fault w (trace w) (Access p) of
        Some e \<Rightarrow> (Inl e, emit (Access p) w)
      | None \<Rightarrow>
          if p \<in> files w then (Inr (), emit (Access p) w)
          else (Inl (enoent ''access'' p), emit (Access p) w))"

section \<open>Printer discovery\<close>

record printer =
  name :: string
  uri :: string
  status :: string
  isDefault :: bool
  isUSB :: bool
  isBluetooth :: bool
  description :: "string option"

text \<open>The device line of a printer, its uri and the two flags (the body of the loop).\<close>

definition classify :: "string list \<Rightarrow> string \<Rightarrow> string \<times> bool \<times> bool" where
  "classify deviceLines printerName =
     (case find (\<lambda>d. str_includes d printerName) deviceLines of
        None \<Rightarrow> ('''', False, False)
      | Some deviceLine \<Rightarrow>
          (case search device_re deviceLine of
             None \<Rightarrow> ('''', False, False)
           | Some (_, u) \<Rightarrow>
               (let lowerUri = toLowerCase u
                in (u, str_includes lowerUri ''usb'',
                    str_includes lowerUri ''bluetooth'' \<or> str_includes lowerUri ''bth''))))"

definition parse_line :: "string list \<Rightarrow> string \<Rightarrow> string \<Rightarrow> printer option" where
  "parse_line deviceLines defaultPrinter line =
     (case search printer_re line of
        None \<Rightarrow> None
      | Some (printerName, st) \<Rightarrow>
          (let status = (if st = [] then ''unknown'' else st);
               (uri, usb, bt) = classify deviceLines printerName
           in Some \<lparr>name = printerName, uri = uri, status = status,
                     isDefault = (printerName = defaultPrinter),
                     isUSB = usb, isBluetooth = bt, description = Some status\<rparr>))"

definition parse_printers :: "string \<Rightarrow> string \<Rightarrow> printer list" where
  "parse_printers printerList printerDevices =
     (let lines = split_nl printerList;
          deviceLines = split_nl printerDevices;
          defaultPrinter = (case search default_re printerList of Some d \<Rightarrow> d | None \<Rightarrow> '''')
      in List.map_filter (parse_line deviceLines defaultPrinter) lines)"

definition getAllPrinters :: "printer list io" where
  "getAllPrinters =
     try_catch
       (bind (execAsync ''lpstat -p -d'') (\<lambda>(printerList, _).
        bind (execAsync ''lpstat -v'') (\<lambda>(printerDevices, _).
        return (parse_printers printerList printerDevices))))
       (\<lambda>error. throw (Error None (''Failed to get printers: '' @ message error)))"

definition getUSBPrinters :: "printer list io" where
  "getUSBPrinters = bind getAllPrinters (\<lambda>allPrinters. return (filter isUSB allPrinters))"

definition isPrinterEnabled :: "string \<Rightarrow> bool io" where
  "isPrinterEnabled printerName =
     try_catch
       (bind (execAsync (''lpstat -p '' @ dquote printerName)) (\<lambda>(stdout, _).
        (let isDisabled = str_includes (toLowerCase stdout) ''disabled''
                          \<or> str_includes (toLowerCase stdout) ''paused''
         in return (\<not> isDisabled))))
       (\<lambda>error. throw (Error None (''Failed to check printer status: '' @ message error)))"

definition enablePrinter :: "string \<Rightarrow> string io" where
  "enablePrinter printerName =
     try_catch
       (bind (execAsync (''cupsenable '' @ dquote printerName)) (\<lambda>_.
        bind (execAsync (''cupsaccept '' @ dquote printerName)) (\<lambda>_.
        return (''Printer '' @ dquote printerName
                @ '' has been enabled and is now accepting jobs''))))
       (\<lambda>error. throw (Error None (''Failed to enable printer: '' @ message error)))"

section \<open>Job submission\<close>

text \<open>
  A JavaScript number as \<^verbatim>\<open>buildPrintCommand\<close> sees it: whether it is greater than 1 (which
  a number that is zero or not a number is not), and what \<^verbatim>\<open>toString()\<close> prints for it, be it
  decimal digits, a fraction or an exponent. \<open>number_1\<close> is the number \<^verbatim>\<open>1\<close> that the
  request passes.
\<close>

record number =
  greater_than_one :: bool
  shown :: string

definition number_1 :: number where
  "number_1 = \<lparr>greater_than_one = False, shown = ''1''\<rparr>"

record PrintOptions =
  copies :: "number option"
  media :: "string option"
  grayscale :: bool
  fitToPage :: bool
  cupOptions :: "(string \<times> string) list option"

datatype image_source = FilePath string | Buffer string

fun join :: "string \<Rightarrow> string list \<Rightarrow> string" where
  "join sep [] = []"
| "join sep [x] = x"
| "join sep (x # y # ys) = x @ sep @ join sep (y # ys)"

definition buildPrintCommand :: "string \<Rightarrow> string \<Rightarrow> PrintOptions \<Rightarrow> string" where
  "buildPrintCommand printerName imagePath options =
     join '' ''
       ([''lp'', ''-d'', dquote printerName]
        @ (case copies options of
             Some n \<Rightarrow> if greater_than_one n then [''-n'', shown n] else []
           | None \<Rightarrow> [])
        @ (case media options of
             Some m \<Rightarrow> if m \<noteq> [] then [''-o'', ''media='' @ m] else []
           | None \<Rightarrow> [])
        @ (if grayscale options then [''-o'', ''ColorModel=Gray''] else [])
        @ (if fitToPage options then [''-o'', ''fit-to-page''] else [])
        @ (case cupOptions options of
             Some kvs \<Rightarrow> concat (map (\<lambda>(k, v). [''-o'', k @ ''='' @ v]) kvs)
           | None \<Rightarrow> [])
        @ [dquote imagePath])"

definition supportedFormats :: "string list" where
  "supportedFormats = [''.png'', ''.jpg'', ''.jpeg'', ''.gif'', ''.pdf'', ''.tiff'', ''.tif'']"

definition validateImageFile :: "string \<Rightarrow> unit io" where
  "validateImageFile filePath w =
     try_catch
       (bind (access filePath) (\<lambda>_.
        (let ext = toLowerCase (path_extname w filePath)
         in if ext \<notin> set supportedFormats
            then throw (Error None (''Unsupported file format: '' @ ext
                          @ ''. Supported formats: '' @ join '', '' supportedFormats))
            else return ())))
       (\<lambda>error. if code error = Some ''ENOENT''
                then throw (Error None (''File not found: '' @ filePath))
                else throw error)
       w"

text \<open>The name of the temporary file of a buffer.\<close>

definition temp_path :: "world \<Rightarrow> string" where
  "temp_path w =
     path_join w (tmpdir w)
       (''print-temp-'' @ decimal (now w (trace w)) @ ''-'' @ random_id w (trace w) @ ''.png'')"

text \<open>\<^verbatim>\<open>tempFilePath\<close> is set before the buffer is written, and stays null for a path.\<close>

definition tempFilePath_of :: "image_source \<Rightarrow> world \<Rightarrow> string option" where
  "tempFilePath_of src w = (case src of Buffer b \<Rightarrow> Some (temp_path w) | FilePath p \<Rightarrow> None)"

text \<open>The first part of the \<^verbatim>\<open>try\<close> block: the image as a file.\<close>

definition materialize :: "image_source \<Rightarrow> string io" where
  "materialize src w =
     (case src of
        Buffer b \<Rightarrow> bind (writeFile (temp_path w)) (\<lambda>_. return (temp_path w)) w
      | FilePath p \<Rightarrow> bind (validateImageFile p) (\<lambda>_. return p) w)"

text \<open>The job id of the spooler's answer.\<close>

definition extract_job_id :: "string \<Rightarrow> string" where
  "extract_job_id stdout =
     (case search request_id_re stdout of Some jobId \<Rightarrow> jobId | None \<Rightarrow> trim stdout)"

text \<open>The second part of the \<^verbatim>\<open>try\<close> block: the late check of the printer, and the submission.\<close>

definition submit :: "string \<Rightarrow> string \<Rightarrow> PrintOptions \<Rightarrow> string io" where
  "submit printerName imagePath options =
     bind getAllPrinters (\<lambda>printers.
       (case find (\<lambda>p. name p = printerName) printers of
          None \<Rightarrow> throw (Error None (''Printer not found: '' @ printerName))
        | Some printer \<Rightarrow>
            bind (execAsync (buildPrintCommand printerName imagePath options)) (\<lambda>(stdout, stderr).
            return (extract_job_id stdout))))"

text \<open>The \<^verbatim>\<open>try\<close> block with its \<^verbatim>\<open>catch\<close>.\<close>

definition printImage_try :: "string \<Rightarrow> image_source \<Rightarrow> PrintOptions \<Rightarrow> string io" where
  "printImage_try printerName src options =
     try_catch
       (bind (materialize src) (\<lambda>imagePath. submit printerName imagePath options))
       (\<lambda>error. throw (Error None (''Failed to print: '' @ message error)))"

text \<open>What the \<^verbatim>\<open>catch\<close> block throws for an error of the \<^verbatim>\<open>try\<close> block.\<close>

definition wrap_print :: "error \<Rightarrow> error" where
  "wrap_print e = Error None (''Failed to print: '' @ message e)"

text \<open>The \<^verbatim>\<open>finally\<close> block.\<close>

definition cleanup :: "string option \<Rightarrow> unit io" where
  "cleanup tempFilePath =
     (case tempFilePath of
        None \<Rightarrow> return ()
      | Some t \<Rightarrow> try_catch (unlink t) (\<lambda>error. return ()))"

definition printImage :: "string \<Rightarrow> image_source \<Rightarrow> PrintOptions \<Rightarrow> string io" where
  "printImage printerName src options w =
     try_finally (printImage_try printerName src options) (cleanup (tempFilePath_of src w)) w"

definition printToUSB :: "image_source \<Rightarrow> PrintOptions \<Rightarrow> (string \<times> string) io" where
  "printToUSB src options =
     bind getUSBPrinters (\<lambda>usbPrinters.
       (case usbPrinters of
          [] \<Rightarrow> throw (Error None ''No USB printers found'')
        | first # _ \<Rightarrow>
            (let printer = (case find isDefault usbPrinters of Some p \<Rightarrow> p | None \<Rightarrow> first)
             in bind (printImage (name printer) src options) (\<lambda>jobId.
                return (name printer, jobId)))))"

section \<open>The generate-and-print request\<close>

datatype response = JsonResponse nat string | ImageResponse nat string

definition requestOptions :: PrintOptions where
  "requestOptions =
     \<lparr>copies = Some number_1, media = None, grayscale = False, fitToPage = True,
      cupOptions = None\<rparr>"

text \<open>The inner \<^verbatim>\<open>try\<close> block of the handler: the configured printer, or the USB fallback.\<close>

definition print_step :: "string \<Rightarrow> string \<Rightarrow> unit io" where
  "print_step PRINTER_NAME buffer =
     bind getAllPrinters (\<lambda>printers.
       (case find (\<lambda>p. name p = PRINTER_NAME) printers of
          Some targetPrinter \<Rightarrow>
            bind (printImage PRINTER_NAME (Buffer buffer) requestOptions) (\<lambda>jobId. return ())
        | None \<Rightarrow>
            bind (printToUSB (Buffer buffer) requestOptions) (\<lambda>printResult. return ())))"

text \<open>
  The handler of \<^verbatim>\<open>POST /api/generate\<close>, after the body is parsed. \<open>generateImage\<close> is the
  outcome of the image service for a prompt: it throws, returns null, or returns the bytes.
\<close>

definition api_generate ::
    "string \<Rightarrow> (string \<Rightarrow> error + string option) \<Rightarrow> string option \<Rightarrow> world \<Rightarrow> response \<times> world" where
  "api_generate PRINTER_NAME generateImage prompt w =
     (case prompt of
        None \<Rightarrow> (JsonResponse 400 ''Prompt is required'', w)
      | Some p \<Rightarrow>
          if p = [] then (JsonResponse 400 ''Prompt is required'', w)
          else
            (case generateImage p of
               Inl error \<Rightarrow> (JsonResponse 500 (message error), w)
             | Inr None \<Rightarrow> (JsonResponse 500 ''Failed to generate image'', w)
             | Inr (Some buffer) \<Rightarrow>
                 (case try_catch (print_step PRINTER_NAME buffer) (\<lambda>printError. return ()) w of
                    (Inl error, w') \<Rightarrow> (JsonResponse 500 (message error), w')
                  | (Inr _, w') \<Rightarrow> (ImageResponse 200 buffer, w'))))"

section \<open>The health monitor\<close>

text \<open>A callback returns, or throws an error; it is optional.\<close>

record watch_options =
  interval :: "nat option"
  printerNames :: "string list option"
  onResume :: "(string \<Rightarrow> error option) option"
  onError :: "(error \<Rightarrow> error option) option"

definition call :: "event \<Rightarrow> error option \<Rightarrow> unit io" where
  "call ev outcome w = (case outcome of None \<Rightarrow> (Inr (), emit ev w) | Some e \<Rightarrow> (Inl e, emit ev w))"

text \<open>The body of the loop over the printers to check.\<close>

definition check_one :: "watch_options \<Rightarrow> printer \<Rightarrow> unit io" where
  "check_one opts p =
     bind (isPrinterEnabled (name p)) (\<lambda>isEnabled.
       if \<not> isEnabled then
         bind (enablePrinter (name p)) (\<lambda>_.
           (case onResume opts of
              Some f \<Rightarrow> call (OnResume (name p)) (f (name p))
            | None \<Rightarrow> return ()))
       else return ())"

fun check_each :: "watch_options \<Rightarrow> printer list \<Rightarrow> unit io" where
  "check_each opts [] w = (Inr (), w)"
| "check_each opts (p # ps) w =
     (case check_one opts p w of
        (Inl e, w') \<Rightarrow> (Inl e, w')
      | (Inr _, w') \<Rightarrow> check_each opts ps w')"

text \<open>The printers of one pass: the names asked for, or every USB or Bluetooth printer.\<close>

definition printersToCheck :: "watch_options \<Rightarrow> printer list io" where
  "printersToCheck opts =
     (case printerNames opts of
        Some names \<Rightarrow>
          if names \<noteq> [] then
            bind getAllPrinters (\<lambda>allPrinters.
              return (filter (\<lambda>p. name p \<in> set names) allPrinters))
          else
            bind getAllPrinters (\<lambda>allPrinters.
              return (filter (\<lambda>p. isUSB p \<or> isBluetooth p) allPrinters))
      | None \<Rightarrow>
          bind getAllPrinters (\<lambda>allPrinters.
            return (filter (\<lambda>p. isUSB p \<or> isBluetooth p) allPrinters)))"

text \<open>The \<^verbatim>\<open>try\<close> block of a pass, and the pass with its \<^verbatim>\<open>catch\<close>.\<close>

definition pass_try :: "watch_options \<Rightarrow> unit io" where
  "pass_try opts = bind (printersToCheck opts) (check_each opts)"

definition pass :: "watch_options \<Rightarrow> unit io" where
  "pass opts =
     try_catch (pass_try opts)
       (\<lambda>error. case onError opts of Some f \<Rightarrow> call (OnError error) (f error)
                                    | None \<Rightarrow> return ())"

text \<open>
  The watcher: the flag \<^verbatim>\<open>isRunning\<close>, the timeouts set and not yet fired, the calls of
  \<^verbatim>\<open>check\<close> that passed the guard and have not finished, and the world. A pass reads the
  flag when it begins and when it ends; what it does in between is applied when it ends.
\<close>

record watcher =
  isRunning :: bool
  timers :: nat
  in_flight :: nat
  os :: world

datatype action = TimerFires | PassCompletes | Stop

definition interval_of :: "watch_options \<Rightarrow> nat" where
  "interval_of opts = (case interval opts of Some i \<Rightarrow> i | None \<Rightarrow> 1000)"

text \<open>A call of \<^verbatim>\<open>check\<close>: the guard.\<close>

definition check_begin :: "watcher \<Rightarrow> watcher" where
  "check_begin s =
     (if \<not> isRunning s then s
      else s\<lparr>in_flight := in_flight s + 1, os := emit PassBegin (os s)\<rparr>)"

text \<open>The rest of \<^verbatim>\<open>check\<close>: the pass, then the next timeout when the flag is still set.\<close>

definition check_end :: "watch_options \<Rightarrow> watcher \<Rightarrow> watcher" where
  "check_end opts s =
     (case pass opts (os s) of
        (Inl e, w') \<Rightarrow> s\<lparr>in_flight := in_flight s - 1, os := emit (Unhandled e) w'\<rparr>
      | (Inr _, w') \<Rightarrow>
          if isRunning s
          then s\<lparr>timers := timers s + 1, in_flight := in_flight s - 1,
                 os := emit (SetTimeout (interval_of opts)) w'\<rparr>
          else s\<lparr>in_flight := in_flight s - 1, os := w'\<rparr>)"

definition step :: "watch_options \<Rightarrow> watcher \<Rightarrow> action \<Rightarrow> watcher" where
  "step opts s a =
     (case a of
        TimerFires \<Rightarrow> if timers s = 0 then s else check_begin (s\<lparr>timers := timers s - 1\<rparr>)
      | PassCompletes \<Rightarrow> if in_flight s = 0 then s else check_end opts s
      | Stop \<Rightarrow> s\<lparr>isRunning := False\<rparr>)"

definition run :: "watch_options \<Rightarrow> watcher \<Rightarrow> action list \<Rightarrow> watcher" where
  "run opts s as = foldl (step opts) s as"

text \<open>Starting the watcher calls \<^verbatim>\<open>check\<close> at once; the handle returned is \<open>Stop\<close>.\<close>

definition watchAndResumePrinters :: "watch_options \<Rightarrow> world \<Rightarrow> watcher" where
  "watchAndResumePrinters opts w =
     check_begin \<lparr>isRunning = True, timers = 0, in_flight = 0, os = w\<rparr>"

text \<open>The passes begun and the timeouts set, counted in the trace.\<close>

definition passes_begun :: "watcher \<Rightarrow> nat" where
  "passes_begun s = length (filter (\<lambda>ev. ev = PassBegin) (trace (os s)))"

definition is_SetTimeout :: "event \<Rightarrow> bool" where
  "is_SetTimeout ev = (case ev of SetTimeout _ \<Rightarrow> True | _ \<Rightarrow> False)"

definition timeouts_set :: "watcher \<Rightarrow> nat" where
  "timeouts_set s = length (filter is_SetTimeout (trace (os s)))"

section \<open>Notions of the specification\<close>

text \<open>A text contains a word case-insensitively: some stretch of it lowers to the word.\<close>

definition contains_ci :: "string \<Rightarrow> string \<Rightarrow> bool" where
  "contains_ci text word =
     (\<exists>us vs ws. text = us @ vs @ ws \<and> toLowerCase vs = word)"

text \<open>
  The pattern "request id is <printer>-<digits>" occurs in a text with the digits \<open>ds\<close>:
  after the words comes a non-empty printer part on the same line, a hyphen, and the
  digits, which are all the digits there are at that place.
\<close>

definition request_id_occurs :: "string \<Rightarrow> string \<Rightarrow> bool" where
  "request_id_occurs text ds =
     (\<exists>before printerPart rest.
        text = before @ ''request id is '' @ printerPart @ ''-'' @ ds @ rest
        \<and> printerPart \<noteq> [] \<and> list_all dot printerPart
        \<and> ds \<noteq> [] \<and> list_all is_digit ds
        \<and> (case rest of [] \<Rightarrow> True | c # _ \<Rightarrow> \<not> is_digit c))"

text \<open>The commands and the file operations of a stretch of the trace.\<close>

definition execs :: "event list \<Rightarrow> string list" where
  "execs evs = concat (map (\<lambda>ev. case ev of Exec c \<Rightarrow> [c] | _ \<Rightarrow> []) evs)"

definition file_ops :: "event list \<Rightarrow> event list" where
  "file_ops evs =
     filter (\<lambda>ev. case ev of WriteFile _ \<Rightarrow> True | Unlink _ \<Rightarrow> True | Access _ \<Rightarrow> True
                  | _ \<Rightarrow> False) evs"

text \<open>An operation that does nothing to the world but run commands.\<close>

definition only_execs :: "'a io \<Rightarrow> bool" where
  "only_execs m = (\<forall>w. \<exists>cmds. snd (m w) = w\<lparr>trace := trace w @ map Exec cmds\<rparr>)"

text \<open>An operation that does nothing to the world but add events to the trace.\<close>

definition only_events :: "'a io \<Rightarrow> bool" where
  "only_events m = (\<forall>w. \<exists>evs. snd (m w) = w\<lparr>trace := trace w @ evs\<rparr>)"

text \<open>The events that begin a pass or set a timeout, and an operation that adds none.\<close>

definition schedule_events :: "event list \<Rightarrow> event list" where
  "schedule_events evs = filter (\<lambda>ev. ev = PassBegin \<or> is_SetTimeout ev) evs"

definition keeps_schedule :: "'a io \<Rightarrow> bool" where
  "keeps_schedule m = (\<forall>w. schedule_events (trace (snd (m w))) = schedule_events (trace w))"

section \<open>Example worlds\<close>

definition nl :: string where
  "nl = [CHR 0x0A]"

text \<open>
  A spooler with one USB printer, the default, that accepts every job and answers a
  query about any other name with nothing.
\<close>

definition canon_respond :: "event list \<Rightarrow> string \<Rightarrow> error + string \<times> string" where
  "canon_respond tr command =
     (if command = ''lpstat -p -d'' then
        Inr (''printer Canon_XK130 is idle.  enabled since Mon'' @ nl
             @ ''system default destination: Canon_XK130'' @ nl, '''')
      else if command = ''lpstat -v'' then
        Inr (''device for Canon_XK130: usb://Canon/XK130'' @ nl, '''')
      else if command = ''lpstat -p '' @ dquote ''Canon_XK130'' then
        Inr (''printer Canon_XK130 is idle.  enabled since Mon'' @ nl, '''')
      else if startsWith command ''lp '' then
        Inr (''request id is Canon_XK130-42 (1 file(s))'' @ nl, '''')
      else Inr ('''', ''''))"

definition canon_world :: world where
  "canon_world =
     \<lparr>trace = [], files = {}, respond = canon_respond, fs_fault = (\<lambda>tr ev. None),
      tmpdir = ''/tmp'', now = (\<lambda>tr. 7), random_id = (\<lambda>tr. ''k3x9q''),
      path_join = (\<lambda>a b. a @ ''/'' @ b), path_extname = (\<lambda>p. '''')\<rparr>"

definition canon :: printer where
  "canon =
     \<lparr>name = ''Canon_XK130'', uri = ''usb://Canon/XK130'',
      status = ''is idle.  enabled since Mon'', isDefault = True,
      isUSB = True, isBluetooth = False,
      description = Some ''is idle.  enabled since Mon''\<rparr>"

text \<open>
  A spooler with no printer: the lists are empty, and a query or a command about a
  destination it does not know exits with status 1, so that \<^verbatim>\<open>execAsync\<close> rejects.
\<close>

definition empty_respond :: "event list \<Rightarrow> string \<Rightarrow> error + string \<times> string" where
  "empty_respond tr command =
     (if command = ''lpstat -p -d'' \<or> command = ''lpstat -v'' then Inr ('''', '''')
      else Inl (Error (Some ''1'') (''Command failed: '' @ command)))"

definition empty_world :: world where
  "empty_world = canon_world\<lparr>respond := empty_respond\<rparr>"

text \<open>The same spooler on a disk where no file can be deleted.\<close>

definition eperm :: error where
  "eperm = Error (Some ''EPERM'') ''EPERM: operation not permitted''"

definition sticky_world :: world where
  "sticky_world =
     empty_world\<lparr>fs_fault := (\<lambda>tr ev. case ev of Unlink _ \<Rightarrow> Some eperm | _ \<Rightarrow> None)\<rparr>"

text \<open>A spooler whose printer is paused, and one that is down.\<close>

definition paused_respond :: "event list \<Rightarrow> string \<Rightarrow> error + string \<times> string" where
  "paused_respond tr command =
     (if command = ''lpstat -p '' @ dquote ''Canon_XK130'' then
        Inr (''printer Canon_XK130 disabled since Mon -'' @ nl @ ''Paused'' @ nl, '''')
      else canon_respond tr command)"

definition paused_world :: world where
  "paused_world = canon_world\<lparr>respond := paused_respond\<rparr>"

definition down_world :: world where
  "down_world =
     canon_world\<lparr>respond := (\<lambda>tr command. Inl (Error (Some ''127'') ''Command failed''))\<rparr>"

text \<open>Watcher options: no callbacks, recording callbacks, and an error callback that throws.\<close>

definition quiet_options :: watch_options where
  "quiet_options = \<lparr>interval = None, printerNames = None, onResume = None, onError = None\<rparr>"

definition logging_options :: watch_options where
  "logging_options =
     \<lparr>interval = Some 30000, printerNames = Some [''Canon_XK130''],
      onResume = Some (\<lambda>n. None), onError = Some (\<lambda>e. None)\<rparr>"

definition throwing_options :: watch_options where
  "throwing_options = logging_options\<lparr>onError := Some (\<lambda>e. Some e)\<rparr>"

text \<open>
  A spooler with three idle USB printers; the status query of the second one is rejected.
\<close>

definition usb_printer :: "string \<Rightarrow> string \<Rightarrow> printer" where
  "usb_printer n u =
     \<lparr>name = n, uri = u, status = ''is idle.'', isDefault = False,
      isUSB = True, isBluetooth = False, description = Some ''is idle.''\<rparr>"

definition flaky_respond :: "event list \<Rightarrow> string \<Rightarrow> error + string \<times> string" where
  "flaky_respond tr command =
     (if command = ''lpstat -p -d'' then
        Inr (''printer Canon_XK130 is idle.'' @ nl @ ''printer Brother_QL is idle.'' @ nl
             @ ''printer Zebra_ZD is idle.'' @ nl, [])
      else if command = ''lpstat -v'' then
        Inr (''device for Canon_XK130: usb://Canon/XK130'' @ nl
             @ ''device for Brother_QL: usb://Brother/QL'' @ nl
             @ ''device for Zebra_ZD: usb://Zebra/ZD'' @ nl, [])
      else if command = ''lpstat -p '' @ dquote ''Brother_QL'' then
        Inl (Error (Some ''1'') ''Command failed: lpstat'')
      else canon_respond tr command)"

definition flaky_world :: world where
  "flaky_world = canon_world\<lparr>respond := flaky_respond\<rparr>"

section \<open>Substrings\<close>

lemma startsWith_iff: "startsWith s pat \<longleftrightarrow> (\<exists>ws. s = pat @ ws)"
  unfolding startsWith_def
proof
  assume "take (length pat) s = pat"
  then have "s = pat @ drop (length pat) s" by (metis append_take_drop_id)
  then show "\<exists>ws. s = pat @ ws" ..
next
  assume "\<exists>ws. s = pat @ ws"
  then show "take (length pat) s = pat" by auto
qed

lemma str_includes_iff: "str_includes s pat \<longleftrightarrow> (\<exists>us ws. s = us @ pat @ ws)"
proof (induction s)
  case Nil
  then show ?case by auto
next
  case (Cons c cs)
  show ?case
  proof
    assume "str_includes (c # cs) pat"
    then consider "startsWith (c # cs) pat" | "str_includes cs pat" by auto
    then show "\<exists>us ws. c # cs = us @ pat @ ws"
    proof cases
      case 1
      then obtain ws where "c # cs = pat @ ws" using startsWith_iff by blast
      then have "c # cs = [] @ pat @ ws" by simp
      then show ?thesis by blast
    next
      case 2
      then obtain us ws where "cs = us @ pat @ ws" using Cons.IH by blast
      then have "c # cs = (c # us) @ pat @ ws" by simp
      then show ?thesis by blast
    qed
  next
    assume "\<exists>us ws. c # cs = us @ pat @ ws"
    then obtain us ws where eq: "c # cs = us @ pat @ ws" by blast
    show "str_includes (c # cs) pat"
    proof (cases us)
      case Nil
      with eq have "startsWith (c # cs) pat" using startsWith_iff by auto
      then show ?thesis by simp
    next
      case (Cons u us')
      with eq have "cs = us' @ pat @ ws" by simp
      then have "str_includes cs pat" using Cons.IH by blast
      then show ?thesis by simp
    qed
  qed
qed

lemma contains_ci_iff: "contains_ci text word \<longleftrightarrow> str_includes (toLowerCase text) word"
proof
  assume "contains_ci text word"
  then obtain us vs ws where "text = us @ vs @ ws" "toLowerCase vs = word"
    unfolding contains_ci_def by blast
  then have "toLowerCase text = toLowerCase us @ word @ toLowerCase ws"
    by (simp add: toLowerCase_def)
  then show "str_includes (toLowerCase text) word" using str_includes_iff by blast
next
  assume "str_includes (toLowerCase text) word"
  then obtain a c where "map toLowerCase_char text = a @ word @ c"
    using str_includes_iff unfolding toLowerCase_def by blast
  then have "\<exists>us r. text = us @ r \<and> a = map toLowerCase_char us
                  \<and> word @ c = map toLowerCase_char r"
    by (simp only: map_eq_append_conv)
  then obtain us r where t1: "text = us @ r" and t2: "map toLowerCase_char r = word @ c"
    by metis
  from t2 have "\<exists>vs ws. r = vs @ ws \<and> word = map toLowerCase_char vs
                  \<and> c = map toLowerCase_char ws"
    by (simp only: map_eq_append_conv)
  then obtain vs ws where "r = vs @ ws" "map toLowerCase_char vs = word"
    by metis
  with t1 show "contains_ci text word"
    unfolding contains_ci_def toLowerCase_def by blast
qed

lemma execAsync_simps:
  "fst (execAsync c w) = respond w (trace w) c" "snd (execAsync c w) = emit (Exec c) w"
  by (simp_all add: execAsync_def)

lemma isPrinterEnabled_ok:
  assumes "respond w (trace w) (''lpstat -p '' @ dquote n) = Inr (text, err)"
  shows "isPrinterEnabled n w =
           (Inr (\<not> (str_includes (toLowerCase text) ''disabled''
                     \<or> str_includes (toLowerCase text) ''paused'')),
            emit (Exec (''lpstat -p '' @ dquote n)) w)"
  using assms by (simp add: isPrinterEnabled_def try_catch_def bind_def execAsync_def return_def)

lemma isPrinterEnabled_fail:
  assumes "respond w (trace w) (''lpstat -p '' @ dquote n) = Inl e"
  shows "isPrinterEnabled n w =
           (Inl (Error None (''Failed to check printer status: '' @ message e)),
            emit (Exec (''lpstat -p '' @ dquote n)) w)"
  using assms by (simp add: isPrinterEnabled_def try_catch_def bind_def execAsync_def throw_def)

section \<open>Printer status and classification\<close>

text \<open>
  C8. When the status query of one printer returns a text, \<open>isPrinterEnabled\<close> returns
  false if and only if the text contains "disabled" or "paused" case-insensitively, and
  true for every other text (the empty text among them).
\<close>

theorem isPrinterEnabled_iff:
  assumes "respond w (trace w) (''lpstat -p '' @ dquote printerName) = Inr (text, err)"
  shows "fst (isPrinterEnabled printerName w)
           = Inr (\<not> (contains_ci text ''disabled'' \<or> contains_ci text ''paused''))"
  using isPrinterEnabled_ok [OF assms] by (simp add: contains_ci_iff)

theorem isPrinterEnabled_iff_witness:
  "respond paused_world (trace paused_world) (''lpstat -p '' @ dquote ''Canon_XK130'')
     = Inr (''printer Canon_XK130 disabled since Mon -'' @ nl @ ''Paused'' @ nl, '''')
   \<and> fst (isPrinterEnabled ''Canon_XK130'' paused_world) = Inr False
   \<and> (contains_ci (''printer Canon_XK130 disabled since Mon -'' @ nl @ ''Paused'' @ nl) ''disabled''
        \<or> contains_ci (''printer Canon_XK130 disabled since Mon -'' @ nl @ ''Paused'' @ nl) ''paused'')"
proof -
  have h: "respond paused_world (trace paused_world) (''lpstat -p '' @ dquote ''Canon_XK130'')
     = Inr (''printer Canon_XK130 disabled since Mon -'' @ nl @ ''Paused'' @ nl, '''')"
    by (simp add: paused_world_def canon_world_def paused_respond_def startsWith_def dquote_def)
  have r: "fst (isPrinterEnabled ''Canon_XK130'' paused_world) = Inr False"
    using isPrinterEnabled_ok [OF h]
    by (simp add: nl_def toLowerCase_def toLowerCase_char_def startsWith_def)
  from isPrinterEnabled_iff [OF h] r h show ?thesis by simp

qed

lemma classify_flags:
  assumes "classify deviceLines n = (u, usb, bt)"
  shows "usb = str_includes (toLowerCase u) ''usb''"
    and "bt = (str_includes (toLowerCase u) ''bluetooth'' \<or> str_includes (toLowerCase u) ''bth'')"
  using assms
  by (auto simp: classify_def toLowerCase_def startsWith_def Let_def
           split: option.splits prod.splits)

lemma parse_line_flags:
  assumes "parse_line deviceLines d line = Some p"
  shows "isUSB p = str_includes (toLowerCase (uri p)) ''usb''"
    and "isBluetooth p = (str_includes (toLowerCase (uri p)) ''bluetooth''
                          \<or> str_includes (toLowerCase (uri p)) ''bth'')"
proof -
  from assms obtain n st u usb bt where
    c: "classify deviceLines n = (u, usb, bt)" and
    p: "uri p = u" "isUSB p = usb" "isBluetooth p = bt"
    by (auto simp: parse_line_def Let_def split: option.splits prod.splits)
  from classify_flags [OF c] p
  show "isUSB p = str_includes (toLowerCase (uri p)) ''usb''"
    and "isBluetooth p = (str_includes (toLowerCase (uri p)) ''bluetooth''
                          \<or> str_includes (toLowerCase (uri p)) ''bth'')"
    by simp_all
qed

lemma parse_printers_member:
  assumes "p \<in> set (parse_printers printerList printerDevices)"
  shows "\<exists>deviceLines d line. parse_line deviceLines d line = Some p"
proof -
  from assms obtain line where
    "parse_line (split_nl printerDevices)
       (case search default_re printerList of Some d \<Rightarrow> d | None \<Rightarrow> []) line = Some p"
    by (auto simp: parse_printers_def Let_def List.map_filter_def)
  then show ?thesis by blast
qed

lemma getAllPrinters_cases:
  "getAllPrinters w =
     (case respond w (trace w) ''lpstat -p -d'' of
        Inl e \<Rightarrow> (Inl (Error None (''Failed to get printers: '' @ message e)),
                  emit (Exec ''lpstat -p -d'') w)
      | Inr (printerList, err) \<Rightarrow>
          (case respond w (trace w @ [Exec ''lpstat -p -d'']) ''lpstat -v'' of
             Inl e \<Rightarrow> (Inl (Error None (''Failed to get printers: '' @ message e)),
                       emit (Exec ''lpstat -v'') (emit (Exec ''lpstat -p -d'') w))
           | Inr (printerDevices, err') \<Rightarrow>
               (Inr (parse_printers printerList printerDevices),
                emit (Exec ''lpstat -v'') (emit (Exec ''lpstat -p -d'') w))))"
  by (simp add: getAllPrinters_def try_catch_def bind_def execAsync_def return_def throw_def
                emit_def split: sum.splits prod.splits)

lemma getAllPrinters_parsed:
  assumes "fst (getAllPrinters w) = Inr printers"
  shows "\<exists>printerList printerDevices. printers = parse_printers printerList printerDevices"
  using assms by (auto simp: getAllPrinters_cases split: sum.splits prod.splits)

lemma canon_discovery: "fst (getAllPrinters canon_world) = Inr [canon]"
  by (simp add: getAllPrinters_cases canon_world_def canon_respond_def nl_def canon_def
        parse_printers_def parse_line_def classify_def List.map_filter_def Let_def
        printer_re_def printer_tail_def device_re_def device_tail_def default_re_def
        startsWith_def dot_def is_line_terminator_def toLowerCase_def toLowerCase_char_def)

text \<open>
  C9. For every printer that discovery returns, \<open>isUSB\<close> holds if and only if its uri
  contains "usb" case-insensitively, and \<open>isBluetooth\<close> if and only if the uri contains
  "bluetooth" or "bth" case-insensitively: the flags are a function of the uri alone.
\<close>

theorem flags_from_uri:
  assumes "fst (getAllPrinters w) = Inr printers" and "p \<in> set printers"
  shows "(isUSB p \<longleftrightarrow> contains_ci (uri p) ''usb'')
       \<and> (isBluetooth p \<longleftrightarrow> contains_ci (uri p) ''bluetooth'' \<or> contains_ci (uri p) ''bth'')"
proof -
  from assms obtain deviceLines d line where "parse_line deviceLines d line = Some p"
    using getAllPrinters_parsed parse_printers_member by blast
  from parse_line_flags [OF this] show ?thesis by (simp add: contains_ci_iff)
qed

theorem flags_from_uri_witness:
  "fst (getAllPrinters canon_world) = Inr [canon] \<and> canon \<in> set [canon]
   \<and> contains_ci (uri canon) ''usb''
   \<and> \<not> contains_ci (uri canon) ''bluetooth'' \<and> \<not> contains_ci (uri canon) ''bth''"
proof -
  have m: "canon \<in> set [canon]" by simp
  have "isUSB canon" "\<not> isBluetooth canon" by (simp_all add: canon_def)
  with flags_from_uri [OF canon_discovery m] canon_discovery show ?thesis by simp
qed

lemma canon_ghost_query:
  "respond canon_world (trace canon_world) (''lpstat -p '' @ dquote ''Ghost'') = Inr ('''', '''')"
  by (simp add: canon_world_def canon_respond_def dquote_def startsWith_def)

lemma empty_discovery: "fst (getAllPrinters empty_world) = Inr []"
  by (simp add: getAllPrinters_cases empty_world_def canon_world_def empty_respond_def
        parse_printers_def parse_line_def List.map_filter_def Let_def
        printer_re_def default_re_def startsWith_def)

lemma empty_ghost_query:
  "respond empty_world (trace empty_world) (''lpstat -p '' @ dquote ''Ghost'')
     = Inl (Error (Some ''1'') (''Command failed: lpstat -p '' @ dquote ''Ghost''))"
  by (simp add: empty_world_def canon_world_def empty_respond_def dquote_def)

text \<open>
  C1, as stated, fails: on a spooler that knows no printer and exits with status 1 on a
  query about one, discovery returns no printer and \<open>isPrinterEnabled\<close> throws.
\<close>

theorem isPrinterEnabled_missing_counterexample:
  "fst (getAllPrinters empty_world) = Inr []
   \<and> respond empty_world (trace empty_world) (''lpstat -p '' @ dquote ''Ghost'')
       = Inl (Error (Some ''1'') (''Command failed: lpstat -p '' @ dquote ''Ghost''))
   \<and> fst (isPrinterEnabled ''Ghost'' empty_world)
       = Inl (Error None (''Failed to check printer status: Command failed: lpstat -p ''
                           @ dquote ''Ghost''))
   \<and> fst (isPrinterEnabled ''Ghost'' empty_world) \<noteq> Inr True"
  using empty_discovery empty_ghost_query isPrinterEnabled_fail [OF empty_ghost_query]
  by simp

text \<open>
  C1, amended. \<open>isPrinterEnabled\<close> does not look at the registry. For every printer
  name it fails exactly when the status query is rejected, with the message
  "Failed to check printer status: ...", and it returns true when the query succeeds
  with a text that contains neither "disabled" nor "paused".
\<close>

theorem isPrinterEnabled_by_query:
  "((\<exists>e. fst (isPrinterEnabled printerName w) = Inl e)
      \<longleftrightarrow> (\<exists>e. respond w (trace w) (''lpstat -p '' @ dquote printerName) = Inl e))
   \<and> (\<forall>e. respond w (trace w) (''lpstat -p '' @ dquote printerName) = Inl e
        \<longrightarrow> fst (isPrinterEnabled printerName w)
              = Inl (Error None (''Failed to check printer status: '' @ message e)))
   \<and> (\<forall>text err. respond w (trace w) (''lpstat -p '' @ dquote printerName) = Inr (text, err)
        \<longrightarrow> \<not> contains_ci text ''disabled'' \<longrightarrow> \<not> contains_ci text ''paused''
        \<longrightarrow> fst (isPrinterEnabled printerName w) = Inr True)"
proof (cases "respond w (trace w) (''lpstat -p '' @ dquote printerName)")
  case (Inl e)
  from isPrinterEnabled_fail [OF Inl] Inl show ?thesis by simp
next
  case (Inr r)
  obtain out err where "r = (out, err)" by (cases r)
  with Inr have q: "respond w (trace w) (''lpstat -p '' @ dquote printerName) = Inr (out, err)"
    by simp
  from isPrinterEnabled_ok [OF q] q show ?thesis by (simp add: contains_ci_iff)
qed

theorem isPrinterEnabled_by_query_witness:
  "fst (getAllPrinters canon_world) = Inr [canon] \<and> ''Ghost'' \<noteq> name canon
   \<and> respond canon_world (trace canon_world) (''lpstat -p '' @ dquote ''Ghost'') = Inr ('''', '''')
   \<and> \<not> contains_ci '''' ''disabled'' \<and> \<not> contains_ci '''' ''paused''
   \<and> fst (isPrinterEnabled ''Ghost'' canon_world) = Inr True
   \<and> respond empty_world (trace empty_world) (''lpstat -p '' @ dquote ''Ghost'')
       = Inl (Error (Some ''1'') (''Command failed: lpstat -p '' @ dquote ''Ghost''))
   \<and> fst (isPrinterEnabled ''Ghost'' empty_world)
       = Inl (Error None (''Failed to check printer status: ''
                @ message (Error (Some ''1'') (''Command failed: lpstat -p '' @ dquote ''Ghost''))))"
proof -
  have c: "\<not> contains_ci '''' ''disabled''" "\<not> contains_ci '''' ''paused''"
    by (simp_all add: contains_ci_iff toLowerCase_def)
  have n: "''Ghost'' \<noteq> name canon" by (simp add: canon_def)
  from isPrinterEnabled_by_query [of "''Ghost''" canon_world] canon_ghost_query c
  have t: "fst (isPrinterEnabled ''Ghost'' canon_world) = Inr True" by simp
  from isPrinterEnabled_by_query [of "''Ghost''" empty_world] empty_ghost_query
  have f: "fst (isPrinterEnabled ''Ghost'' empty_world)
       = Inl (Error None (''Failed to check printer status: ''
                @ message (Error (Some ''1'') (''Command failed: lpstat -p '' @ dquote ''Ghost''))))"
    by simp
  from canon_discovery n canon_ghost_query c t empty_ghost_query f show ?thesis by simp
qed

section \<open>The job id\<close>

lemma search_Some:
  "search m s = Some r \<Longrightarrow> \<exists>before suffix. s = before @ suffix \<and> m suffix = Some r"
proof (induction s)
  case Nil
  then have "[] = [] @ [] \<and> m [] = Some r" by simp
  then show ?case by (rule_tac x = "[]" in exI, rule_tac x = "[]" in exI)
next
  case (Cons c cs)
  show ?case
  proof (cases "m (c # cs) = None")
    case True
    with Cons.prems have "search m cs = Some r" by simp
    from Cons.IH [OF this] obtain before suffix where
      bs: "cs = before @ suffix" "m suffix = Some r" by (elim exE conjE)
    then have "c # cs = (c # before) @ suffix \<and> m suffix = Some r" by simp
    then show ?thesis by (rule_tac x = "c # before" in exI, rule_tac x = suffix in exI)
  next
    case False
    with Cons.prems have "c # cs = [] @ (c # cs) \<and> m (c # cs) = Some r" by simp
    then show ?thesis by (rule_tac x = "[]" in exI, rule_tac x = "c # cs" in exI)
  qed
qed

lemma search_found_here: "m s \<noteq> None \<Longrightarrow> search m s \<noteq> None"
  by (cases s) auto

lemma search_found: "m suffix \<noteq> None \<Longrightarrow> search m (before @ suffix) \<noteq> None"
  by (induction before) (auto simp: search_found_here)

lemma greedy_dash_Some:
  "greedy_dash line n = Some ds \<Longrightarrow>
     \<exists>k. 0 < k \<and> k \<le> n \<and> dash_digit (drop k line) \<and> ds = takeWhile is_digit (drop (Suc k) line)"
proof (induction n)
  case 0
  then show ?case by simp
next
  case (Suc n)
  show ?case
  proof (cases "dash_digit (drop (Suc n) line)")
    case True
    with Suc.prems have "ds = takeWhile is_digit (drop (Suc (Suc n)) line)" by simp
    with True show ?thesis by blast
  next
    case False
    with Suc.prems have "greedy_dash line n = Some ds" by simp
    then obtain k where "0 < k" "k \<le> n" "dash_digit (drop k line)"
      "ds = takeWhile is_digit (drop (Suc k) line)"
      using Suc.IH by blast
    then have "0 < k \<and> k \<le> Suc n \<and> dash_digit (drop k line)
               \<and> ds = takeWhile is_digit (drop (Suc k) line)" by simp
    then show ?thesis by blast
  qed
qed

lemma greedy_dash_complete:
  "0 < k \<Longrightarrow> k \<le> n \<Longrightarrow> dash_digit (drop k line) \<Longrightarrow> greedy_dash line n \<noteq> None"
proof (induction n)
  case 0
  then show ?case by simp
next
  case (Suc n)
  show ?case
  proof (cases "k = Suc n")
    case True
    with Suc.prems show ?thesis by simp
  next
    case False
    with Suc.prems have "k \<le> n" by simp
    with Suc show ?thesis by simp
  qed
qed

lemma digit_dot: "is_digit c \<Longrightarrow> dot c"
  by (auto simp: is_digit_def dot_def is_line_terminator_def)

lemma hyphen_dot: "dot CHR ''-''"
  by (simp add: dot_def is_line_terminator_def)

lemma dash_digit_iff: "dash_digit s \<longleftrightarrow> (\<exists>d r. s = CHR ''-'' # d # r \<and> is_digit d)"
  by (auto simp: dash_digit_def split: list.splits)

lemma startsWith_drop: "startsWith s pat \<Longrightarrow> s = pat @ drop (length pat) s"
  unfolding startsWith_def by (metis append_take_drop_id)

lemma request_id_re_sound:
  assumes "request_id_re s = Some ds"
  shows "\<exists>printerPart rest.
           s = ''request id is '' @ printerPart @ ''-'' @ ds @ rest
           \<and> printerPart \<noteq> [] \<and> list_all dot printerPart
           \<and> ds \<noteq> [] \<and> list_all is_digit ds
           \<and> (case rest of [] \<Rightarrow> True | c # _ \<Rightarrow> \<not> is_digit c)"
proof -
  define tail where "tail = drop 14 s"
  define line where "line = takeWhile dot tail"
  from assms have sw: "startsWith s ''request id is ''"
    by (auto simp: request_id_re_def split: if_splits)
  have len: "(14::nat) = length ''request id is ''" by simp
  have s_eq: "s = ''request id is '' @ tail"
    unfolding tail_def len by (rule startsWith_drop [OF sw])
  from assms sw have "greedy_dash line (length line) = Some ds"
    by (simp add: request_id_re_def line_def tail_def Let_def)
  then obtain k where k: "0 < k" "k \<le> length line" "dash_digit (drop k line)"
    "ds = takeWhile is_digit (drop (Suc k) line)"
    using greedy_dash_Some by blast
  from k(3) obtain d r where dr: "drop k line = CHR ''-'' # d # r" "is_digit d"
    using dash_digit_iff by blast
  define pp where "pp = take k line"
  have line_eq: "line = pp @ CHR ''-'' # d # r"
    unfolding pp_def using dr(1) by (metis append_take_drop_id)
  have "length pp = k" unfolding pp_def using k(2) by simp
  with k(1) have pp_ne: "pp \<noteq> []" by auto
  have "\<forall>c \<in> set line. dot c" unfolding line_def by (auto dest: set_takeWhileD)
  then have pp_dot: "list_all dot pp" unfolding line_eq by (simp add: list_all_iff)
  have "drop (Suc k) line = tl (drop k line)" by (simp add: drop_Suc tl_drop)
  with dr(1) have "drop (Suc k) line = d # r" by simp
  with k(4) have ds_eq: "ds = takeWhile is_digit (d # r)" by simp
  with dr(2) have ds_ne: "ds \<noteq> []" by simp
  have ds_dig: "list_all is_digit ds"
    unfolding ds_eq list_all_iff by (auto dest: set_takeWhileD)
  define rest where "rest = dropWhile is_digit (d # r) @ dropWhile dot tail"
  have "d # r = ds @ dropWhile is_digit (d # r)" unfolding ds_eq by simp
  then have line_eq': "line = pp @ ''-'' @ ds @ dropWhile is_digit (d # r)"
    using line_eq by simp
  have "tail = line @ dropWhile dot tail"
    by (simp add: line_def)
  also have "\<dots> = (pp @ ''-'' @ ds @ dropWhile is_digit (d # r)) @ dropWhile dot tail"
    by (simp only: line_eq')
  finally have "tail = pp @ ''-'' @ ds @ rest" by (simp add: rest_def)
  with s_eq have decomp: "s = ''request id is '' @ pp @ ''-'' @ ds @ rest" by simp
  have rest_ok: "(case rest of [] \<Rightarrow> True | c # _ \<Rightarrow> \<not> is_digit c)"
  proof (cases "dropWhile is_digit (d # r)")
    case Nil
    note no_more = Nil
    show ?thesis
    proof (cases "dropWhile dot tail")
      case Nil
      note no_tail = Nil
      show ?thesis unfolding rest_def no_more no_tail by simp
    next
      case (Cons c cs)
      note tm = Cons
      have "\<not> dot (hd (dropWhile dot tail))"
        by (rule hd_dropWhile) (simp add: tm)
      then have "\<not> dot c" by (simp add: tm)
      then have "\<not> is_digit c" using digit_dot by blast
      then show ?thesis unfolding rest_def no_more tm by simp
    qed
  next
    case (Cons c cs)
    note more = Cons
    have "\<not> is_digit (hd (dropWhile is_digit (d # r)))"
      by (rule hd_dropWhile) (simp only: more, simp)
    then have "\<not> is_digit c" unfolding more by simp
    then show ?thesis unfolding rest_def more by simp
  qed
  from decomp pp_ne pp_dot ds_ne ds_dig rest_ok show ?thesis by blast
qed

lemma request_id_re_complete:
  assumes "printerPart \<noteq> []" "list_all dot printerPart" "ds \<noteq> []" "list_all is_digit ds"
  shows "request_id_re (''request id is '' @ printerPart @ ''-'' @ ds @ rest) \<noteq> None"
proof -
  from assms(3) obtain d ds' where ds: "ds = d # ds'" by (cases ds) auto
  with assms(4) have d: "is_digit d" by simp
  define tail where "tail = printerPart @ ''-'' @ ds @ rest"
  define line where "line = takeWhile dot tail"
  have all_dot: "\<And>x. x \<in> set (printerPart @ [CHR ''-'', d]) \<Longrightarrow> dot x"
    using assms(2) d digit_dot hyphen_dot by (auto simp: list_all_iff)
  have "takeWhile dot ((printerPart @ [CHR ''-'', d]) @ ds' @ rest)
               = (printerPart @ [CHR ''-'', d]) @ takeWhile dot (ds' @ rest)"
    by (rule takeWhile_append2) (rule all_dot)
  then have line_eq: "line = printerPart @ CHR ''-'' # d # takeWhile dot (ds' @ rest)"
    unfolding line_def tail_def ds by simp
  then have "drop (length printerPart) line = CHR ''-'' # d # takeWhile dot (ds' @ rest)"
    by simp
  with d have dd: "dash_digit (drop (length printerPart) line)"
    using dash_digit_iff by blast
  have "0 < length printerPart" using assms(1) by simp
  moreover have "length printerPart \<le> length line" unfolding line_eq by simp
  ultimately have "greedy_dash line (length line) \<noteq> None"
    using dd greedy_dash_complete by blast
  then show ?thesis
    by (simp add: request_id_re_def startsWith_def line_def tail_def Let_def)
qed

lemma request_id_re_occurs:
  assumes "request_id_re s = Some j"
  shows "request_id_occurs (b @ s) j"
proof -
  from request_id_re_sound [OF assms] obtain printerPart rest where
    s: "s = ''request id is '' @ printerPart @ ''-'' @ j @ rest" and
    c: "printerPart \<noteq> []" "list_all dot printerPart" "j \<noteq> []" "list_all is_digit j"
       "(case rest of [] \<Rightarrow> True | c # _ \<Rightarrow> \<not> is_digit c)"
    by (elim exE conjE)
  have eq: "b @ s = b @ ''request id is '' @ printerPart @ ''-'' @ j @ rest"
    by (simp only: s)
  show ?thesis unfolding request_id_occurs_def
    by (rule_tac x = b in exI, rule_tac x = printerPart in exI, rule_tac x = rest in exI)
       (intro conjI eq c)
qed

lemma extract_job_id_occurs:
  assumes "request_id_occurs stdout ds"
  shows "request_id_occurs stdout (extract_job_id stdout)"
proof -
  from assms obtain before printerPart rest where
    t: "stdout = before @ ''request id is '' @ printerPart @ ''-'' @ ds @ rest" and
    c: "printerPart \<noteq> []" "list_all dot printerPart" "ds \<noteq> []" "list_all is_digit ds"
    unfolding request_id_occurs_def by (elim exE conjE)
  from request_id_re_complete [OF c]
  have "search request_id_re stdout \<noteq> None" unfolding t by (rule search_found)
  then obtain j where j: "search request_id_re stdout = Some j" by (cases "search request_id_re stdout") simp_all
  from search_Some [OF j] obtain b s where bs: "stdout = b @ s" "request_id_re s = Some j"
    by (elim exE conjE)
  from request_id_re_occurs [OF bs(2)] have "request_id_occurs stdout j"
    by (simp only: bs(1))
  with j show ?thesis by (simp add: extract_job_id_def)
qed

lemma extract_job_id_absent:
  assumes "\<nexists>ds. request_id_occurs stdout ds"
  shows "extract_job_id stdout = trim stdout"
proof (cases "search request_id_re stdout")
  case None
  then show ?thesis by (simp add: extract_job_id_def)
next
  case (Some j)
  from search_Some [OF Some] obtain b s where bs: "stdout = b @ s" "request_id_re s = Some j"
    by (elim exE conjE)
  from request_id_re_occurs [OF bs(2)] have "request_id_occurs stdout j"
    by (simp only: bs(1))
  with assms show ?thesis by (elim notE, intro exI)
qed

section \<open>Operations that only run commands\<close>

lemma bind_Inl: "fst (m w) = Inl e \<Longrightarrow> bind m f w = (Inl e, snd (m w))"
  by (cases "m w") (simp add: bind_def)

lemma bind_Inr: "fst (m w) = Inr x \<Longrightarrow> bind m f w = f x (snd (m w))"
  by (cases "m w") (simp add: bind_def)

lemma try_catch_Inl: "fst (m w) = Inl e \<Longrightarrow> try_catch m h w = h e (snd (m w))"
  by (cases "m w") (simp add: try_catch_def)

lemma try_catch_Inr: "fst (m w) = Inr x \<Longrightarrow> try_catch m h w = (Inr x, snd (m w))"
  by (cases "m w") (simp add: try_catch_def)

lemma only_execsI:
  assumes "\<And>w. \<exists>cmds. snd (m w) = w\<lparr>trace := trace w @ map Exec cmds\<rparr>"
  shows "only_execs m"
  using assms unfolding only_execs_def by simp

lemma only_execsD:
  assumes "only_execs m"
  obtains cmds where "snd (m w) = w\<lparr>trace := trace w @ map Exec cmds\<rparr>"
  using assms unfolding only_execs_def by (elim allE [of _ w] exE)

lemma only_execs_return: "only_execs (return x)"
proof (rule only_execsI)
  fix w :: world
  have "snd (return x w) = w\<lparr>trace := trace w @ map Exec []\<rparr>" by (simp add: return_def)
  then show "\<exists>cmds. snd (return x w) = w\<lparr>trace := trace w @ map Exec cmds\<rparr>" by (rule exI)
qed

lemma only_execs_throw: "only_execs (throw e)"
proof (rule only_execsI)
  fix w :: world
  have "snd (throw e w) = w\<lparr>trace := trace w @ map Exec []\<rparr>" by (simp add: throw_def)
  then show "\<exists>cmds. snd (throw e w) = w\<lparr>trace := trace w @ map Exec cmds\<rparr>" by (rule exI)
qed

lemma only_execs_execAsync: "only_execs (execAsync c)"
proof (rule only_execsI)
  fix w :: world
  have "snd (execAsync c w) = w\<lparr>trace := trace w @ map Exec [c]\<rparr>"
    by (simp add: execAsync_def emit_def)
  then show "\<exists>cmds. snd (execAsync c w) = w\<lparr>trace := trace w @ map Exec cmds\<rparr>" by (rule exI)
qed

lemma only_execs_step:
  assumes "snd (m w) = w\<lparr>trace := trace w @ map Exec c1\<rparr>"
      and "snd (k (snd (m w))) = (snd (m w))\<lparr>trace := trace (snd (m w)) @ map Exec c2\<rparr>"
  shows "snd (k (snd (m w))) = w\<lparr>trace := trace w @ map Exec (c1 @ c2)\<rparr>"
  by (simp add: assms(2)) (simp add: assms(1))

lemma only_execs_bind:
  assumes m: "only_execs m" and f: "\<And>x. only_execs (f x)"
  shows "only_execs (bind m f)"
proof (rule only_execsI)
  fix w :: world
  obtain c1 where c1: "snd (m w) = w\<lparr>trace := trace w @ map Exec c1\<rparr>"
    using m by (rule only_execsD)
  show "\<exists>cmds. snd (bind m f w) = w\<lparr>trace := trace w @ map Exec cmds\<rparr>"
  proof (cases "fst (m w)")
    case (Inl e)
    then have "snd (bind m f w) = snd (m w)" by (simp add: bind_Inl)
    with c1 show ?thesis by (simp only: exI)
  next
    case (Inr x)
    obtain c2 where
      c2: "snd (f x (snd (m w))) = (snd (m w))\<lparr>trace := trace (snd (m w)) @ map Exec c2\<rparr>"
      using f by (rule only_execsD)
    from Inr have "snd (bind m f w) = snd (f x (snd (m w)))"
      by (simp add: bind_Inr)
    also have "\<dots> = w\<lparr>trace := trace w @ map Exec (c1 @ c2)\<rparr>"
      using c1 c2 by (rule only_execs_step)
    finally show ?thesis by (rule exI)
  qed
qed

lemma only_execs_try_catch:
  assumes m: "only_execs m" and h: "\<And>e. only_execs (h e)"
  shows "only_execs (try_catch m h)"
proof (rule only_execsI)
  fix w :: world
  obtain c1 where c1: "snd (m w) = w\<lparr>trace := trace w @ map Exec c1\<rparr>"
    using m by (rule only_execsD)
  show "\<exists>cmds. snd (try_catch m h w) = w\<lparr>trace := trace w @ map Exec cmds\<rparr>"
  proof (cases "fst (m w)")
    case (Inr x)
    then have "snd (try_catch m h w) = snd (m w)" by (simp add: try_catch_Inr)
    with c1 show ?thesis by (simp only: exI)
  next
    case (Inl e)
    obtain c2 where
      c2: "snd (h e (snd (m w))) = (snd (m w))\<lparr>trace := trace (snd (m w)) @ map Exec c2\<rparr>"
      using h by (rule only_execsD)
    from Inl have "snd (try_catch m h w) = snd (h e (snd (m w)))"
      by (simp add: try_catch_Inl)
    also have "\<dots> = w\<lparr>trace := trace w @ map Exec (c1 @ c2)\<rparr>"
      using c1 c2 by (rule only_execs_step)
    finally show ?thesis by (rule exI)
  qed
qed

lemma only_execs_getAllPrinters: "only_execs getAllPrinters"
  unfolding getAllPrinters_def
  by (intro only_execs_try_catch only_execs_bind only_execs_execAsync only_execs_throw)
     (simp_all add: split_def only_execs_bind only_execs_execAsync only_execs_return)

lemma only_execs_isPrinterEnabled: "only_execs (isPrinterEnabled n)"
  unfolding isPrinterEnabled_def
  by (intro only_execs_try_catch only_execs_bind only_execs_execAsync only_execs_throw)
     (simp_all add: split_def Let_def only_execs_return)

lemma only_execs_enablePrinter: "only_execs (enablePrinter n)"
  unfolding enablePrinter_def
  by (intro only_execs_try_catch only_execs_bind only_execs_execAsync only_execs_throw
            only_execs_return)

lemma only_execs_submit: "only_execs (submit n imagePath opts)"
  unfolding submit_def
proof (intro only_execs_bind only_execs_getAllPrinters)
  fix printers :: "printer list"
  show "only_execs (case find (\<lambda>p. name p = n) printers of
          None \<Rightarrow> throw (Error None (''Printer not found: '' @ n))
        | Some printer \<Rightarrow>
            bind (execAsync (buildPrintCommand n imagePath opts)) (\<lambda>(stdout, stderr).
            return (extract_job_id stdout)))"
    by (cases "find (\<lambda>p. name p = n) printers")
       (simp_all add: only_execs_throw only_execs_bind only_execs_execAsync only_execs_return
                      split_def)
qed


lemma only_execs_world:
  assumes "only_execs m"
  shows "files (snd (m w)) = files w" and "fs_fault (snd (m w)) = fs_fault w"
    and "respond (snd (m w)) = respond w"
    and "file_ops (trace (snd (m w))) = file_ops (trace w)"
proof -
  obtain cmds where c: "snd (m w) = w\<lparr>trace := trace w @ map Exec cmds\<rparr>"
    using assms by (rule only_execsD)
  have "file_ops (map Exec cmds) = []" by (induction cmds) (simp_all add: file_ops_def)
  then have "file_ops (trace w @ map Exec cmds) = file_ops (trace w)"
    by (simp add: file_ops_def)
  with c show "files (snd (m w)) = files w" and "fs_fault (snd (m w)) = fs_fault w"
    and "respond (snd (m w)) = respond w"
    and "file_ops (trace (snd (m w))) = file_ops (trace w)"
    by simp_all
qed

section \<open>Printing\<close>

lemma cleanup_result: "fst (cleanup t w) = Inr ()"
proof (cases t)
  case None
  then show ?thesis by (simp add: cleanup_def return_def)
next
  case (Some p)
  show ?thesis
  proof (cases "fst (unlink p w)")
    case (Inl e)
    then show ?thesis by (simp add: Some cleanup_def try_catch_Inl return_def)
  next
    case (Inr u)
    then show ?thesis by (simp add: Some cleanup_def try_catch_Inr)
  qed
qed

lemma printImage_split:
  "printImage n src opts w =
     (fst (printImage_try n src opts w),
      snd (cleanup (tempFilePath_of src w) (snd (printImage_try n src opts w))))"
proof -
  define r where "r = printImage_try n src opts w"
  define c where "c = cleanup (tempFilePath_of src w) (snd r)"
  have "fst c = Inr ()" unfolding c_def by (rule cleanup_result)
  then have c: "c = (Inr (), snd c)" by (simp add: prod_eq_iff)
  have "printImage n src opts w = (case r of (x, w') \<Rightarrow>
          (case cleanup (tempFilePath_of src w) w' of
             (Inl e, w'') \<Rightarrow> (Inl e, w'') | (Inr _, w'') \<Rightarrow> (x, w'')))"
    by (simp add: printImage_def try_finally_def r_def)
  also have "\<dots> = (case c of (Inl e, w'') \<Rightarrow> (Inl e, w'') | (Inr _, w'') \<Rightarrow> (fst r, w''))"
    by (simp add: c_def split_def)
  also have "\<dots> = (fst r, snd c)" by (subst c) simp
  finally show ?thesis by (simp add: r_def c_def)
qed

lemma getAllPrinters_ok_world:
  assumes "fst (getAllPrinters w) = Inr ps"
  shows "snd (getAllPrinters w) = w\<lparr>trace := trace w @ [Exec ''lpstat -p -d'', Exec ''lpstat -v'']\<rparr>"
  using assms by (auto simp: getAllPrinters_cases emit_def split: sum.splits prod.splits)

lemma printImage_try_materialize_fails:
  assumes "fst (materialize src w) = Inl e"
  shows "printImage_try n src opts w = (Inl (wrap_print e), snd (materialize src w))"
  using assms by (simp add: printImage_try_def try_catch_Inl bind_Inl throw_def wrap_print_def)

lemma printImage_try_submit_fails:
  assumes "fst (materialize src w) = Inr imagePath"
      and "fst (submit n imagePath opts (snd (materialize src w))) = Inl e"
  shows "printImage_try n src opts w
           = (Inl (wrap_print e), snd (submit n imagePath opts (snd (materialize src w))))"
  using assms by (simp add: printImage_try_def try_catch_Inl bind_Inr throw_def wrap_print_def)

lemma printImage_try_submit_ok:
  assumes "fst (materialize src w) = Inr imagePath"
      and "fst (submit n imagePath opts (snd (materialize src w))) = Inr j"
  shows "printImage_try n src opts w
           = (Inr j, snd (submit n imagePath opts (snd (materialize src w))))"
  using assms by (simp add: printImage_try_def try_catch_Inr bind_Inr)

lemma printImage_try_world:
  "snd (printImage_try n src opts w) =
     (case fst (materialize src w) of
        Inl e \<Rightarrow> snd (materialize src w)
      | Inr imagePath \<Rightarrow> snd (submit n imagePath opts (snd (materialize src w))))"
proof (cases "fst (materialize src w)")
  case (Inl e)
  then show ?thesis by (simp add: printImage_try_materialize_fails)
next
  case (Inr imagePath)
  show ?thesis
  proof (cases "fst (submit n imagePath opts (snd (materialize src w)))")
    case (Inl e)
    with Inr show ?thesis by (simp add: printImage_try_submit_fails)
  next
    case (Inr j)
    with \<open>fst (materialize src w) = Inr imagePath\<close> show ?thesis
      by (simp add: printImage_try_submit_ok)
  qed
qed

lemma submit_absent:
  assumes "getAllPrinters w1 = (Inr printers, w2)"
      and "find (\<lambda>p. name p = n) printers = None"
  shows "submit n imagePath opts w1 = (Inl (Error None (''Printer not found: '' @ n)), w2)"
  using assms by (simp add: submit_def bind_def throw_def)

lemma submit_found:
  assumes "getAllPrinters w1 = (Inr printers, w2)"
      and "find (\<lambda>p. name p = n) printers = Some p"
      and "respond w2 (trace w2) (buildPrintCommand n imagePath opts) = Inr (out, err)"
  shows "submit n imagePath opts w1
           = (Inr (extract_job_id out), emit (Exec (buildPrintCommand n imagePath opts)) w2)"
  using assms by (simp add: submit_def bind_def execAsync_def return_def)

lemma execs_append: "execs (xs @ ys) = execs xs @ execs ys"
  by (simp add: execs_def)

lemma access_world: "snd (access p w) = emit (Access p) w"
  by (simp add: access_def split: option.splits)

lemma validateImageFile_world: "snd (validateImageFile p w) = emit (Access p) w"
proof (cases "fst (access p w)")
  case (Inl e)
  then show ?thesis
    by (simp add: validateImageFile_def try_catch_Inl bind_Inl throw_def access_world)
next
  case (Inr u)
  then have b: "bind (access p) (\<lambda>_.
        (let ext = toLowerCase (path_extname w p)
         in if ext \<notin> set supportedFormats
            then throw (Error None (''Unsupported file format: '' @ ext
                          @ ''. Supported formats: '' @ join '', '' supportedFormats))
            else return ())) w
       = (if toLowerCase (path_extname w p) \<notin> set supportedFormats
          then (Inl (Error None (''Unsupported file format: '' @ toLowerCase (path_extname w p)
                          @ ''. Supported formats: '' @ join '', '' supportedFormats)),
                emit (Access p) w)
          else (Inr (), emit (Access p) w))"
    by (simp add: bind_Inr access_world Let_def throw_def return_def)
  show ?thesis
    unfolding validateImageFile_def try_catch_def b
    by (simp add: throw_def)
qed

lemma writeFile_world:
  "snd (writeFile p w) =
     (if fs_fault w (trace w) (WriteFile p) = None
      then emit (WriteFile p) (w\<lparr>files := insert p (files w)\<rparr>)
      else emit (WriteFile p) w)"
  by (simp add: writeFile_def split: option.splits)

lemma materialize_execs: "execs (trace (snd (materialize src w))) = execs (trace w)"
proof (cases src)
  case (FilePath p)
  have "snd (bind (validateImageFile p) (\<lambda>_. return p) w) = emit (Access p) w"
    by (cases "fst (validateImageFile p w)")
       (simp_all add: bind_Inl bind_Inr return_def validateImageFile_world)
  then show ?thesis by (simp add: FilePath materialize_def emit_def execs_def)
next
  case (Buffer b)
  have "snd (bind (writeFile (temp_path w)) (\<lambda>_. return (temp_path w)) w)
          = snd (writeFile (temp_path w) w)"
    by (cases "fst (writeFile (temp_path w) w)") (simp_all add: bind_Inl bind_Inr return_def)
  then show ?thesis
    by (simp add: Buffer materialize_def writeFile_world emit_def execs_def)
qed

lemma cleanup_execs: "execs (trace (snd (cleanup t w))) = execs (trace w)"
proof (cases t)
  case None
  then show ?thesis by (simp add: cleanup_def return_def)
next
  case (Some p)
  have u: "snd (unlink p w) = emit (Unlink p) w \<or>
           snd (unlink p w) = emit (Unlink p) (w\<lparr>files := files w - {p}\<rparr>)"
    by (simp add: unlink_def split: option.splits)
  have "snd (cleanup t w) = snd (unlink p w)"
    by (cases "fst (unlink p w)")
       (simp_all add: Some cleanup_def try_catch_Inl try_catch_Inr return_def)
  with u show ?thesis by (auto simp: emit_def execs_def)
qed

text \<open>
  C2. When the printer name is absent from the discovery made during the call, \<open>printImage\<close>
  fails with the error "Failed to print: Printer not found: <name>", and the commands run
  during the call are the two discovery queries and nothing else: no \<open>lp\<close> command.
\<close>

theorem printImage_printer_not_found:
  assumes "materialize src w = (Inr imagePath, w1)"
      and "getAllPrinters w1 = (Inr printers, w2)"
      and "printerName \<notin> name ` set printers"
  shows "fst (printImage printerName src options w)
           = Inl (Error None (''Failed to print: Printer not found: '' @ printerName))
       \<and> execs (trace (snd (printImage printerName src options w)))
           = execs (trace w) @ [''lpstat -p -d'', ''lpstat -v'']"
proof -
  from assms(3) have nf: "find (\<lambda>p. name p = printerName) printers = None"
    by (auto simp: find_None_iff)
  from assms(1) have m: "fst (materialize src w) = Inr imagePath" "snd (materialize src w) = w1"
    by simp_all
  from submit_absent [OF assms(2) nf]
  have s: "submit printerName imagePath options w1
             = (Inl (Error None (''Printer not found: '' @ printerName)), w2)" .
  from m s have t: "printImage_try printerName src options w
      = (Inl (wrap_print (Error None (''Printer not found: '' @ printerName))), w2)"
    by (simp add: printImage_try_submit_fails)
  from assms(2) have "snd (getAllPrinters w1)
      = w1\<lparr>trace := trace w1 @ [Exec ''lpstat -p -d'', Exec ''lpstat -v'']\<rparr>"
    by (intro getAllPrinters_ok_world [of w1 printers]) simp
  with assms(2) have "trace w2 = trace w1 @ [Exec ''lpstat -p -d'', Exec ''lpstat -v'']"
    by simp
  then have "execs (trace w2) = execs (trace w1) @ [''lpstat -p -d'', ''lpstat -v'']"
    by (simp add: execs_append) (simp add: execs_def)
  also have "execs (trace w1) = execs (trace w)"
    using materialize_execs [of src w] m(2) by simp
  finally have e: "execs (trace w2) = execs (trace w) @ [''lpstat -p -d'', ''lpstat -v'']" .
  show ?thesis
    by (simp add: printImage_split t cleanup_execs e) (simp add: wrap_print_def)
qed


section \<open>The temporary file\<close>

lemma materialize_Buffer:
  "materialize (Buffer b) w =
     (case fs_fault w (trace w) (WriteFile (temp_path w)) of
        None \<Rightarrow> (Inr (temp_path w),
                 emit (WriteFile (temp_path w)) (w\<lparr>files := insert (temp_path w) (files w)\<rparr>))
      | Some e \<Rightarrow> (Inl e, emit (WriteFile (temp_path w)) w))"
  by (simp add: materialize_def bind_def writeFile_def return_def split: option.splits)

lemma printImage_try_Buffer_world:
  "file_ops (trace (snd (printImage_try n (Buffer b) opts w)))
     = file_ops (trace w) @ [WriteFile (temp_path w)]"
  "fs_fault (snd (printImage_try n (Buffer b) opts w)) = fs_fault w"
  "files (snd (printImage_try n (Buffer b) opts w))
     = (if fs_fault w (trace w) (WriteFile (temp_path w)) = None
        then insert (temp_path w) (files w) else files w)"
proof -
  define wt where "wt = snd (printImage_try n (Buffer b) opts w)"
  define w1 where "w1 = snd (materialize (Buffer b) w)"
  have w1: "file_ops (trace w1) = file_ops (trace w) @ [WriteFile (temp_path w)]"
    "fs_fault w1 = fs_fault w"
    "files w1 = (if fs_fault w (trace w) (WriteFile (temp_path w)) = None
                 then insert (temp_path w) (files w) else files w)"
    unfolding w1_def
    by (simp_all add: materialize_Buffer emit_def file_ops_def split: option.splits)
  have "file_ops (trace wt) = file_ops (trace w1) \<and> fs_fault wt = fs_fault w1
        \<and> files wt = files w1"
  proof (cases "fst (materialize (Buffer b) w)")
    case (Inl e)
    then show ?thesis by (simp add: wt_def w1_def printImage_try_world)
  next
    case (Inr imagePath)
    then have "wt = snd (submit n imagePath opts w1)"
      by (simp add: wt_def w1_def printImage_try_world)
    then show ?thesis
      using only_execs_world [OF only_execs_submit, of n imagePath opts w1] by simp
  qed
  with w1 show
    "file_ops (trace (snd (printImage_try n (Buffer b) opts w)))
       = file_ops (trace w) @ [WriteFile (temp_path w)]"
    "fs_fault (snd (printImage_try n (Buffer b) opts w)) = fs_fault w"
    "files (snd (printImage_try n (Buffer b) opts w))
       = (if fs_fault w (trace w) (WriteFile (temp_path w)) = None
          then insert (temp_path w) (files w) else files w)"
    unfolding wt_def by simp_all
qed

lemma cleanup_world:
  "snd (cleanup (Some t) w) =
     (if fs_fault w (trace w) (Unlink t) = None \<and> t \<in> files w
      then emit (Unlink t) (w\<lparr>files := files w - {t}\<rparr>)
      else emit (Unlink t) w)"
proof -
  have u: "snd (unlink t w) =
     (if fs_fault w (trace w) (Unlink t) = None \<and> t \<in> files w
      then emit (Unlink t) (w\<lparr>files := files w - {t}\<rparr>)
      else emit (Unlink t) w)"
    by (simp add: unlink_def split: option.splits)
  have "snd (cleanup (Some t) w) = snd (unlink t w)"
    by (cases "fst (unlink t w)")
       (simp_all add: cleanup_def try_catch_Inl try_catch_Inr return_def)
  with u show ?thesis by simp
qed

text \<open>
  C3, as stated, fails: on a disk where the deletion is refused, the call has thrown and
  the temporary file it wrote is still there.
\<close>

theorem temp_file_left_counterexample:
  "fst (printImage ''Ghost'' (Buffer ''img'') requestOptions sticky_world)
     = Inl (Error None ''Failed to print: Printer not found: Ghost'')
   \<and> temp_path sticky_world = ''/tmp/print-temp-7-k3x9q.png''
   \<and> temp_path sticky_world \<notin> files sticky_world
   \<and> temp_path sticky_world
       \<in> files (snd (printImage ''Ghost'' (Buffer ''img'') requestOptions sticky_world))"
proof -
  have f: "fs_fault sticky_world = (\<lambda>tr ev. case ev of Unlink _ \<Rightarrow> Some eperm | _ \<Rightarrow> None)"
    "files sticky_world = {}"
    by (simp_all add: sticky_world_def empty_world_def canon_world_def)
  have d: "fst (getAllPrinters (snd (materialize (Buffer ''img'') sticky_world))) = Inr []"
    by (simp add: getAllPrinters_cases materialize_Buffer f emit_def)
       (simp add: sticky_world_def empty_world_def canon_world_def empty_respond_def
          parse_printers_def parse_line_def List.map_filter_def Let_def
          printer_re_def default_re_def startsWith_def)
  have m: "fst (materialize (Buffer ''img'') sticky_world) = Inr (temp_path sticky_world)"
    by (simp add: materialize_Buffer f)
  have nf: "find (\<lambda>p. name p = ''Ghost'') [] = None" by simp
  have g: "getAllPrinters (snd (materialize (Buffer ''img'') sticky_world))
             = (Inr [], snd (getAllPrinters (snd (materialize (Buffer ''img'') sticky_world))))"
    using d by (simp add: prod_eq_iff)
  have sf: "fst (submit ''Ghost'' (temp_path sticky_world) requestOptions
                  (snd (materialize (Buffer ''img'') sticky_world)))
              = Inl (Error None (''Printer not found: '' @ ''Ghost''))"
    using submit_absent [OF g nf] by simp
  from printImage_try_submit_fails [OF m sf]
  have "fst (printImage_try ''Ghost'' (Buffer ''img'') requestOptions sticky_world)
          = Inl (wrap_print (Error None (''Printer not found: '' @ ''Ghost'')))"
    by simp
  then have 1: "fst (printImage ''Ghost'' (Buffer ''img'') requestOptions sticky_world)
                  = Inl (Error None ''Failed to print: Printer not found: Ghost'')"
    by (simp add: printImage_split wrap_print_def)
  have 2: "temp_path sticky_world = ''/tmp/print-temp-7-k3x9q.png''"
    by (simp add: temp_path_def sticky_world_def empty_world_def canon_world_def
          decimal.simps char_of_def bit_Suc_0_iff)
  have 3: "temp_path sticky_world
       \<in> files (snd (printImage ''Ghost'' (Buffer ''img'') requestOptions sticky_world))"
    by (simp add: printImage_split tempFilePath_of_def cleanup_world
          printImage_try_Buffer_world f emit_def)
  from 1 2 3 f(2) show ?thesis by simp
qed

text \<open>
  C3, amended. A call of \<open>printImage\<close> with a buffer writes one temporary file and deletes
  that file once, and touches no other file; it returns or throws what its \<^verbatim>\<open>try\<close> block
  returns or throws, whatever the deletion does. When the deletion does not fail the file
  does not exist after the call; when the file was written and the deletion fails, the
  file is left behind.
\<close>

theorem temp_file_cleanup:
  "file_ops (trace (snd (printImage printerName (Buffer b) options w)))
     = file_ops (trace w) @ [WriteFile (temp_path w), Unlink (temp_path w)]
   \<and> fst (printImage printerName (Buffer b) options w)
       = fst (printImage_try printerName (Buffer b) options w)
   \<and> (fs_fault w (trace (snd (printImage_try printerName (Buffer b) options w)))
         (Unlink (temp_path w)) = None
       \<longrightarrow> temp_path w \<notin> files (snd (printImage printerName (Buffer b) options w)))
   \<and> (fs_fault w (trace w) (WriteFile (temp_path w)) = None
       \<and> fs_fault w (trace (snd (printImage_try printerName (Buffer b) options w)))
           (Unlink (temp_path w)) \<noteq> None
       \<longrightarrow> temp_path w \<in> files (snd (printImage printerName (Buffer b) options w)))"
proof -
  define wt where "wt = snd (printImage_try printerName (Buffer b) options w)"
  have wt: "file_ops (trace wt) = file_ops (trace w) @ [WriteFile (temp_path w)]"
    "fs_fault wt = fs_fault w"
    "files wt = (if fs_fault w (trace w) (WriteFile (temp_path w)) = None
                 then insert (temp_path w) (files w) else files w)"
    unfolding wt_def by (rule printImage_try_Buffer_world)+
  have w': "snd (printImage printerName (Buffer b) options w) = snd (cleanup (Some (temp_path w)) wt)"
    by (simp add: printImage_split tempFilePath_of_def wt_def)
  have 1: "file_ops (trace (snd (cleanup (Some (temp_path w)) wt)))
             = file_ops (trace w) @ [WriteFile (temp_path w), Unlink (temp_path w)]"
    by (simp add: cleanup_world emit_def) (simp add: file_ops_def wt(1) [unfolded file_ops_def])
  have 2: "fst (printImage printerName (Buffer b) options w)
       = fst (printImage_try printerName (Buffer b) options w)"
    by (simp add: printImage_split)
  have 3: "fs_fault w (trace wt) (Unlink (temp_path w)) = None
       \<longrightarrow> temp_path w \<notin> files (snd (cleanup (Some (temp_path w)) wt))"
    by (simp add: cleanup_world emit_def wt(2))
  have 4: "fs_fault w (trace w) (WriteFile (temp_path w)) = None
       \<and> fs_fault w (trace wt) (Unlink (temp_path w)) \<noteq> None
       \<longrightarrow> temp_path w \<in> files (snd (cleanup (Some (temp_path w)) wt))"
    by (simp add: cleanup_world emit_def wt(2) wt(3))
  from 1 2 3 4 show ?thesis unfolding w' wt_def by simp
qed

section \<open>The example worlds, evaluated\<close>

lemma canon_fields:
  "respond canon_world = canon_respond" "fs_fault canon_world = (\<lambda>tr ev. None)"
  "files canon_world = {}" "trace canon_world = []"
  by (simp_all add: canon_world_def)

lemma canon_temp_path: "temp_path canon_world = ''/tmp/print-temp-7-k3x9q.png''"
  by (simp add: temp_path_def canon_world_def decimal.simps char_of_def bit_Suc_0_iff)

lemma canon_discovery_any:
  assumes "respond w = canon_respond"
  shows "fst (getAllPrinters w) = Inr [canon]"
  by (simp add: getAllPrinters_cases assms canon_respond_def nl_def canon_def
        parse_printers_def parse_line_def classify_def List.map_filter_def Let_def
        printer_re_def printer_tail_def device_re_def device_tail_def default_re_def
        startsWith_def dot_def is_line_terminator_def toLowerCase_def toLowerCase_char_def)

lemma canon_materialize:
  "fst (materialize (Buffer b) canon_world) = Inr ''/tmp/print-temp-7-k3x9q.png''"
  "respond (snd (materialize (Buffer b) canon_world)) = canon_respond"
  by (simp_all add: materialize_Buffer canon_fields canon_temp_path emit_def)

lemma canon_submit_world:
  "respond (snd (getAllPrinters (snd (materialize (Buffer b) canon_world)))) = canon_respond"
  using only_execs_world(3) [OF only_execs_getAllPrinters] by (simp add: canon_materialize)

lemma canon_lp:
  "canon_respond tr (buildPrintCommand ''Canon_XK130'' ''/tmp/print-temp-7-k3x9q.png'' requestOptions)
     = Inr (''request id is Canon_XK130-42 (1 file(s))'' @ nl, [])"
  by (simp add: canon_respond_def buildPrintCommand_def requestOptions_def number_1_def
        dquote_def startsWith_def)

lemma canon_job_id: "extract_job_id (''request id is Canon_XK130-42 (1 file(s))'' @ nl) = ''42''"
  by (simp add: extract_job_id_def request_id_re_def startsWith_def nl_def dot_def
        is_line_terminator_def dash_digit_def is_digit_def Let_def)

theorem printImage_printer_not_found_witness:
  "materialize (Buffer ''img'') canon_world
     = (Inr ''/tmp/print-temp-7-k3x9q.png'', snd (materialize (Buffer ''img'') canon_world))
   \<and> getAllPrinters (snd (materialize (Buffer ''img'') canon_world))
       = (Inr [canon], snd (getAllPrinters (snd (materialize (Buffer ''img'') canon_world))))
   \<and> ''Ghost'' \<notin> name ` set [canon]
   \<and> fst (printImage ''Ghost'' (Buffer ''img'') requestOptions canon_world)
       = Inl (Error None ''Failed to print: Printer not found: Ghost'')
   \<and> execs (trace (snd (printImage ''Ghost'' (Buffer ''img'') requestOptions canon_world)))
       = [''lpstat -p -d'', ''lpstat -v'']"
proof -
  have h1: "materialize (Buffer ''img'') canon_world
     = (Inr ''/tmp/print-temp-7-k3x9q.png'', snd (materialize (Buffer ''img'') canon_world))"
    by (simp add: prod_eq_iff canon_materialize)
  have h2: "getAllPrinters (snd (materialize (Buffer ''img'') canon_world))
       = (Inr [canon], snd (getAllPrinters (snd (materialize (Buffer ''img'') canon_world))))"
    by (simp add: prod_eq_iff canon_discovery_any canon_materialize)
  have h3: "''Ghost'' \<notin> name ` set [canon]" by (simp add: canon_def)
  from printImage_printer_not_found [OF h1 h2 h3, of requestOptions] h1 h2 h3
  show ?thesis by (simp add: canon_fields execs_def)
qed

theorem temp_file_cleanup_witness:
  "fs_fault canon_world
     (trace (snd (printImage_try ''Canon_XK130'' (Buffer ''img'') requestOptions canon_world)))
     (Unlink ''/tmp/print-temp-7-k3x9q.png'') = None
   \<and> ''/tmp/print-temp-7-k3x9q.png''
       \<notin> files (snd (printImage ''Canon_XK130'' (Buffer ''img'') requestOptions canon_world))
   \<and> file_ops (trace (snd (printImage ''Canon_XK130'' (Buffer ''img'') requestOptions canon_world)))
       = [WriteFile ''/tmp/print-temp-7-k3x9q.png'', Unlink ''/tmp/print-temp-7-k3x9q.png'']
   \<and> fs_fault sticky_world (trace sticky_world) (WriteFile (temp_path sticky_world)) = None
   \<and> fs_fault sticky_world
       (trace (snd (printImage_try ''Ghost'' (Buffer ''img'') requestOptions sticky_world)))
       (Unlink (temp_path sticky_world)) \<noteq> None
   \<and> temp_path sticky_world
       \<in> files (snd (printImage ''Ghost'' (Buffer ''img'') requestOptions sticky_world))"
proof -
  have h: "fs_fault canon_world
     (trace (snd (printImage_try ''Canon_XK130'' (Buffer ''img'') requestOptions canon_world)))
     (Unlink ''/tmp/print-temp-7-k3x9q.png'') = None"
    by (simp add: canon_fields)
  have s: "fs_fault sticky_world (trace sticky_world) (WriteFile (temp_path sticky_world)) = None"
    "fs_fault sticky_world
       (trace (snd (printImage_try ''Ghost'' (Buffer ''img'') requestOptions sticky_world)))
       (Unlink (temp_path sticky_world)) \<noteq> None"
    by (simp_all add: sticky_world_def empty_world_def canon_world_def)
  from temp_file_cleanup [of "''Canon_XK130''" "''img''" requestOptions canon_world] h
  have c: "''/tmp/print-temp-7-k3x9q.png''
       \<notin> files (snd (printImage ''Canon_XK130'' (Buffer ''img'') requestOptions canon_world))"
    "file_ops (trace (snd (printImage ''Canon_XK130'' (Buffer ''img'') requestOptions canon_world)))
       = [WriteFile ''/tmp/print-temp-7-k3x9q.png'', Unlink ''/tmp/print-temp-7-k3x9q.png'']"
    by (simp_all add: canon_temp_path canon_fields file_ops_def)
  from temp_file_cleanup [of "''Ghost''" "''img''" requestOptions sticky_world] s
  have k: "temp_path sticky_world
       \<in> files (snd (printImage ''Ghost'' (Buffer ''img'') requestOptions sticky_world))"
    by simp
  from h c s k show ?thesis by simp
qed

text \<open>
  C7. When the spooler accepts the job, \<open>printImage\<close> returns a job id and never fails on
  the output: the id is the digits of an occurrence of "request id is <printer>-<digits>"
  when the pattern occurs in the output, and the trimmed output itself when it does not.
\<close>

theorem job_id_of_output:
  assumes "materialize src w = (Inr imagePath, w1)"
      and "getAllPrinters w1 = (Inr printers, w2)"
      and "find (\<lambda>p. name p = printerName) printers = Some p"
      and "respond w2 (trace w2) (buildPrintCommand printerName imagePath options)
             = Inr (stdout, stderr)"
  shows "fst (printImage printerName src options w) = Inr (extract_job_id stdout)
       \<and> ((\<exists>ds. request_id_occurs stdout ds)
            \<longrightarrow> request_id_occurs stdout (extract_job_id stdout))
       \<and> ((\<nexists>ds. request_id_occurs stdout ds) \<longrightarrow> extract_job_id stdout = trim stdout)"
proof -
  from assms(1) have m: "fst (materialize src w) = Inr imagePath" "snd (materialize src w) = w1"
    by simp_all
  from submit_found [OF assms(2) assms(3) assms(4)]
  have "fst (submit printerName imagePath options w1) = Inr (extract_job_id stdout)" by simp
  with m have "fst (printImage_try printerName src options w) = Inr (extract_job_id stdout)"
    by (simp add: printImage_try_submit_ok)
  then have 1: "fst (printImage printerName src options w) = Inr (extract_job_id stdout)"
    by (simp add: printImage_split)
  have 2: "(\<exists>ds. request_id_occurs stdout ds)
            \<longrightarrow> request_id_occurs stdout (extract_job_id stdout)"
    using extract_job_id_occurs by (intro impI) (elim exE)
  have 3: "(\<nexists>ds. request_id_occurs stdout ds) \<longrightarrow> extract_job_id stdout = trim stdout"
    using extract_job_id_absent by (intro impI)
  from 1 2 3 show ?thesis by (intro conjI)
qed

theorem job_id_of_output_witness:
  "materialize (Buffer ''img'') canon_world
     = (Inr ''/tmp/print-temp-7-k3x9q.png'', snd (materialize (Buffer ''img'') canon_world))
   \<and> getAllPrinters (snd (materialize (Buffer ''img'') canon_world))
       = (Inr [canon], snd (getAllPrinters (snd (materialize (Buffer ''img'') canon_world))))
   \<and> find (\<lambda>p. name p = ''Canon_XK130'') [canon] = Some canon
   \<and> fst (printImage ''Canon_XK130'' (Buffer ''img'') requestOptions canon_world) = Inr ''42''
   \<and> extract_job_id ''request id is Canon_XK130-42 (1 file(s))'' = ''42''
   \<and> extract_job_id '' queued  '' = ''queued''"
proof -
  have h1: "materialize (Buffer ''img'') canon_world
     = (Inr ''/tmp/print-temp-7-k3x9q.png'', snd (materialize (Buffer ''img'') canon_world))"
    by (simp add: prod_eq_iff canon_materialize)
  have h2: "getAllPrinters (snd (materialize (Buffer ''img'') canon_world))
       = (Inr [canon], snd (getAllPrinters (snd (materialize (Buffer ''img'') canon_world))))"
    by (simp add: prod_eq_iff canon_discovery_any canon_materialize)
  have h3: "find (\<lambda>p. name p = ''Canon_XK130'') [canon] = Some canon" by (simp add: canon_def)
  have h4: "respond (snd (getAllPrinters (snd (materialize (Buffer ''img'') canon_world))))
              (trace (snd (getAllPrinters (snd (materialize (Buffer ''img'') canon_world)))))
              (buildPrintCommand ''Canon_XK130'' ''/tmp/print-temp-7-k3x9q.png'' requestOptions)
            = Inr (''request id is Canon_XK130-42 (1 file(s))'' @ nl, [])"
    by (simp only: canon_submit_world canon_lp)
  from job_id_of_output [OF h1 h2 h3 h4, THEN conjunct1]
  have r: "fst (printImage ''Canon_XK130'' (Buffer ''img'') requestOptions canon_world) = Inr ''42''"
    by (simp only: canon_job_id)
  have e1: "extract_job_id ''request id is Canon_XK130-42 (1 file(s))'' = ''42''"
    by (simp add: extract_job_id_def request_id_re_def startsWith_def dot_def
        is_line_terminator_def dash_digit_def is_digit_def Let_def)
  have e2: "extract_job_id '' queued  '' = ''queued''"
    by (simp add: extract_job_id_def request_id_re_def startsWith_def trim_def is_space_def)
  from h1 h2 h3 r e1 e2 show ?thesis by simp
qed

section \<open>The request\<close>

lemma swallow_result: "\<exists>u. fst (try_catch m (\<lambda>e. return ()) w) = Inr u"
proof (cases "fst (m w)")
  case (Inl e)
  then show ?thesis by (simp add: try_catch_Inl return_def)
next
  case (Inr u)
  then show ?thesis by (simp add: try_catch_Inr)
qed

text \<open>
  C4. When the prompt is not empty and the image service returns an image, the handler
  answers with that image and status 200 in every world: whatever is thrown while the
  printer is chosen or the job is submitted is caught and changes nothing in the response.
\<close>

theorem generate_returns_image:
  assumes "p \<noteq> []" and "generateImage p = Inr (Some buffer)"
  shows "fst (api_generate PRINTER_NAME generateImage (Some p) w) = ImageResponse 200 buffer"
proof -
  from swallow_result [of "print_step PRINTER_NAME buffer" w]
  obtain u where "fst (try_catch (print_step PRINTER_NAME buffer) (\<lambda>printError. return ()) w) = Inr u"
    by (elim exE)
  then have "try_catch (print_step PRINTER_NAME buffer) (\<lambda>printError. return ()) w
               = (Inr u, snd (try_catch (print_step PRINTER_NAME buffer) (\<lambda>printError. return ()) w))"
    by (simp add: prod_eq_iff)
  then have "(case try_catch (print_step PRINTER_NAME buffer) (\<lambda>printError. return ()) w of
                (Inl error, w') \<Rightarrow> (JsonResponse 500 (message error), w')
              | (Inr _, w') \<Rightarrow> (ImageResponse 200 buffer, w'))
             = (ImageResponse 200 buffer,
                snd (try_catch (print_step PRINTER_NAME buffer) (\<lambda>printError. return ()) w))"
    by (metis (mono_tags, lifting) old.sum.simps(6) split_conv)
  with assms show ?thesis by (simp add: api_generate_def)
qed

lemma down_discovery:
  assumes "respond w = (\<lambda>tr command. Inl (Error (Some ''127'') ''Command failed''))"
  shows "fst (getAllPrinters w) = Inl (Error None ''Failed to get printers: Command failed'')"
  by (simp add: getAllPrinters_cases assms)

theorem generate_returns_image_witness:
  "''cat'' \<noteq> [] \<and> (\<lambda>p. Inr (Some ''img'')) ''cat'' = (Inr (Some ''img'') :: error + string option)
   \<and> fst (print_step ''Canon_XK130'' ''img'' down_world)
       = Inl (Error None ''Failed to get printers: Command failed'')
   \<and> fst (api_generate ''Canon_XK130'' (\<lambda>p. Inr (Some ''img'')) (Some ''cat'') down_world)
       = ImageResponse 200 ''img''"
proof -
  have h1: "''cat'' \<noteq> []" by simp
  have h2: "(\<lambda>p. Inr (Some ''img'')) ''cat'' = (Inr (Some ''img'') :: error + string option)"
    by simp
  have d: "fst (getAllPrinters down_world)
             = Inl (Error None ''Failed to get printers: Command failed'')"
    by (rule down_discovery) (simp add: down_world_def canon_world_def)
  then have f: "fst (print_step ''Canon_XK130'' ''img'' down_world)
       = Inl (Error None ''Failed to get printers: Command failed'')"
    by (simp add: print_step_def bind_Inl)
  from generate_returns_image [OF h1 h2, of "''Canon_XK130''" down_world] h1 f
  show ?thesis by simp
qed

section \<open>One pass of the watcher\<close>



lemma flaky_discovery:
  assumes "respond w = flaky_respond"
  shows "getAllPrinters w =
           (Inr [usb_printer ''Canon_XK130'' ''usb://Canon/XK130'',
                 usb_printer ''Brother_QL'' ''usb://Brother/QL'',
                 usb_printer ''Zebra_ZD'' ''usb://Zebra/ZD''],
            w\<lparr>trace := trace w @ [Exec ''lpstat -p -d'', Exec ''lpstat -v'']\<rparr>)"
  by (simp add: getAllPrinters_cases assms flaky_respond_def nl_def usb_printer_def emit_def
        parse_printers_def parse_line_def classify_def List.map_filter_def Let_def
        printer_re_def printer_tail_def device_re_def device_tail_def default_re_def
        startsWith_def dot_def is_line_terminator_def toLowerCase_def toLowerCase_char_def)


lemma flaky_canon_ok:
  assumes "respond w = flaky_respond"
  shows "check_one quiet_options (usb_printer ''Canon_XK130'' ''usb://Canon/XK130'') w
           = (Inr (), emit (Exec (''lpstat -p '' @ dquote ''Canon_XK130'')) w)"
proof -
  have q: "respond w (trace w) (''lpstat -p '' @ dquote ''Canon_XK130'')
             = Inr (''printer Canon_XK130 is idle.  enabled since Mon'' @ nl, [])"
    by (simp add: assms flaky_respond_def canon_respond_def dquote_def)
  have n: "name (usb_printer ''Canon_XK130'' ''usb://Canon/XK130'') = ''Canon_XK130''"
    by (simp add: usb_printer_def)
  have "isPrinterEnabled ''Canon_XK130'' w
          = (Inr True, emit (Exec (''lpstat -p '' @ dquote ''Canon_XK130'')) w)"
    using isPrinterEnabled_ok [OF q]
    by (simp add: nl_def toLowerCase_def toLowerCase_char_def startsWith_def)
  then show ?thesis by (simp add: check_one_def n bind_def return_def)
qed

lemma flaky_brother_fails:
  assumes "respond w = flaky_respond"
  shows "check_one quiet_options (usb_printer ''Brother_QL'' ''usb://Brother/QL'') w
           = (Inl (Error None ''Failed to check printer status: Command failed: lpstat''),
              emit (Exec (''lpstat -p '' @ dquote ''Brother_QL'')) w)"
proof -
  have q: "respond w (trace w) (''lpstat -p '' @ dquote ''Brother_QL'')
             = Inl (Error (Some ''1'') ''Command failed: lpstat'')"
    by (simp add: assms flaky_respond_def dquote_def)
  have n: "name (usb_printer ''Brother_QL'' ''usb://Brother/QL'') = ''Brother_QL''"
    by (simp add: usb_printer_def)
  from isPrinterEnabled_fail [OF q] show ?thesis
    by (simp add: check_one_def n bind_def)
qed


section \<open>The watcher\<close>

lemma down_pass_try:
  assumes "respond w = (\<lambda>tr command. Inl (Error (Some ''127'') ''Command failed''))"
  shows "pass_try opts w
           = (Inl (Error None ''Failed to get printers: Command failed''),
              emit (Exec ''lpstat -p -d'') w)"
proof -
  have "getAllPrinters w = (Inl (Error None ''Failed to get printers: Command failed''),
                            emit (Exec ''lpstat -p -d'') w)"
    by (simp add: getAllPrinters_cases assms)
  then have "printersToCheck opts w
               = (Inl (Error None ''Failed to get printers: Command failed''),
                  emit (Exec ''lpstat -p -d'') w)"
    by (simp add: printersToCheck_def bind_def split: option.splits)
  then show ?thesis by (simp add: pass_try_def bind_def)
qed

text \<open>
  C5, as stated, fails: discovery throws in the first pass of a running watcher, the
  exception is given to an error callback that throws itself, and then the pass ends
  with an unhandled exception and no timeout is set.
\<close>

theorem pass_error_escapes_counterexample:
  "isRunning (watchAndResumePrinters throwing_options down_world)
   \<and> fst (pass_try throwing_options (os (watchAndResumePrinters throwing_options down_world)))
       = Inl (Error None ''Failed to get printers: Command failed'')
   \<and> trace (os (step throwing_options
                  (watchAndResumePrinters throwing_options down_world) PassCompletes))
       = [PassBegin, Exec ''lpstat -p -d'',
          OnError (Error None ''Failed to get printers: Command failed''),
          Unhandled (Error None ''Failed to get printers: Command failed'')]
   \<and> timers (step throwing_options
                (watchAndResumePrinters throwing_options down_world) PassCompletes) = 0"
proof -
  define s where "s = watchAndResumePrinters throwing_options down_world"
  have s: "isRunning s" "in_flight s = 1" "timers s = 0"
    "os s = emit PassBegin down_world"
    by (simp_all add: s_def watchAndResumePrinters_def check_begin_def)
  have r: "respond (os s) = (\<lambda>tr command. Inl (Error (Some ''127'') ''Command failed''))"
    "trace (os s) = [PassBegin]"
    by (simp_all add: s emit_def down_world_def canon_world_def)
  have p: "pass_try throwing_options (os s)
             = (Inl (Error None ''Failed to get printers: Command failed''),
                emit (Exec ''lpstat -p -d'') (os s))"
    by (rule down_pass_try [OF r(1)])
  then have "pass throwing_options (os s)
      = (Inl (Error None ''Failed to get printers: Command failed''),
         emit (OnError (Error None ''Failed to get printers: Command failed''))
           (emit (Exec ''lpstat -p -d'') (os s)))"
    by (simp add: pass_def try_catch_def call_def throwing_options_def logging_options_def)
  then have "step throwing_options s PassCompletes
      = s\<lparr>in_flight := 0,
           os := emit (Unhandled (Error None ''Failed to get printers: Command failed''))
                  (emit (OnError (Error None ''Failed to get printers: Command failed''))
                    (emit (Exec ''lpstat -p -d'') (os s)))\<rparr>"
    by (simp add: step_def check_end_def s)
  then have "trace (os (step throwing_options s PassCompletes))
       = [PassBegin, Exec ''lpstat -p -d'',
          OnError (Error None ''Failed to get printers: Command failed''),
          Unhandled (Error None ''Failed to get printers: Command failed'')]"
    and "timers (step throwing_options s PassCompletes) = 0"
    by (simp_all add: emit_def r(2) s(3))
  with s(1) p show ?thesis unfolding s_def by simp
qed

text \<open>
  C5, amended. When a pass that is in flight throws (in discovery, a status query, an
  enable command or the resume callback), the exception is caught at the end of the
  pass: the error callback, when there is one, is called with it, once, and otherwise it
  is dropped. Provided the error callback itself returns, nothing is left unhandled, and
  the next pass is scheduled exactly when the watcher has not been stopped.
\<close>

theorem pass_error_is_contained:
  assumes "0 < in_flight s"
      and "pass_try opts (os s) = (Inl e, w1)"
      and "case onError opts of None \<Rightarrow> True | Some f \<Rightarrow> f e = None"
  shows "trace (os (step opts s PassCompletes))
           = trace w1 @ (case onError opts of None \<Rightarrow> [] | Some f \<Rightarrow> [OnError e])
                      @ (if isRunning s then [SetTimeout (interval_of opts)] else [])
       \<and> timers (step opts s PassCompletes) = timers s + (if isRunning s then 1 else 0)
       \<and> in_flight (step opts s PassCompletes) = in_flight s - 1
       \<and> isRunning (step opts s PassCompletes) = isRunning s"
proof -
  define w' where "w' = w1\<lparr>trace := trace w1 @ (case onError opts of None \<Rightarrow> []
                                                   | Some f \<Rightarrow> [OnError e])\<rparr>"
  have "pass opts (os s) = (Inr (), w')"
  proof (cases "onError opts")
    case None
    with assms(2) show ?thesis
      by (simp add: pass_def try_catch_def return_def w'_def)
  next
    case (Some f)
    with assms(3) have "f e = None" by simp
    with Some assms(2) show ?thesis
      by (simp add: pass_def try_catch_def call_def emit_def w'_def)
  qed
  with assms(1) have "step opts s PassCompletes
      = (if isRunning s
         then s\<lparr>timers := timers s + 1, in_flight := in_flight s - 1,
                os := emit (SetTimeout (interval_of opts)) w'\<rparr>
         else s\<lparr>in_flight := in_flight s - 1, os := w'\<rparr>)"
    by (simp add: step_def check_end_def)
  then show ?thesis by (simp add: emit_def w'_def)
qed

theorem pass_error_is_contained_witness:
  "0 < in_flight (watchAndResumePrinters logging_options down_world)
   \<and> pass_try logging_options (os (watchAndResumePrinters logging_options down_world))
       = (Inl (Error None ''Failed to get printers: Command failed''),
          emit (Exec ''lpstat -p -d'') (os (watchAndResumePrinters logging_options down_world)))
   \<and> (case onError logging_options of None \<Rightarrow> True
       | Some f \<Rightarrow> f (Error None ''Failed to get printers: Command failed'') = None)
   \<and> trace (os (step logging_options
                  (watchAndResumePrinters logging_options down_world) PassCompletes))
       = [PassBegin, Exec ''lpstat -p -d'',
          OnError (Error None ''Failed to get printers: Command failed''),
          SetTimeout 30000]
   \<and> timers (step logging_options
                (watchAndResumePrinters logging_options down_world) PassCompletes) = 1"
proof -
  define s where "s = watchAndResumePrinters logging_options down_world"
  have s: "isRunning s" "in_flight s = 1" "timers s = 0"
    "os s = emit PassBegin down_world"
    by (simp_all add: s_def watchAndResumePrinters_def check_begin_def)
  have r: "respond (os s) = (\<lambda>tr command. Inl (Error (Some ''127'') ''Command failed''))"
    "trace (os s) = [PassBegin]"
    by (simp_all add: s emit_def down_world_def canon_world_def)
  have h1: "0 < in_flight s" by (simp add: s)
  have h2: "pass_try logging_options (os s)
             = (Inl (Error None ''Failed to get printers: Command failed''),
                emit (Exec ''lpstat -p -d'') (os s))"
    by (rule down_pass_try [OF r(1)])
  have h3: "case onError logging_options of None \<Rightarrow> True
       | Some f \<Rightarrow> f (Error None ''Failed to get printers: Command failed'') = None"
    by (simp add: logging_options_def)
  from pass_error_is_contained [OF h1 h2 h3]
  have "trace (os (step logging_options s PassCompletes))
       = [PassBegin, Exec ''lpstat -p -d'',
          OnError (Error None ''Failed to get printers: Command failed''),
          SetTimeout 30000]"
    and "timers (step logging_options s PassCompletes) = 1"
    by (simp_all add: s(1) s(2) s(3) emit_def r(2) logging_options_def interval_of_def)
  with h1 h2 h3 show ?thesis unfolding s_def by simp
qed

section \<open>After the stop\<close>

lemma schedule_events_append:
  "schedule_events (xs @ ys) = schedule_events xs @ schedule_events ys"
  by (simp add: schedule_events_def)

lemma keeps_scheduleI:
  assumes "\<And>w. schedule_events (trace (snd (m w))) = schedule_events (trace w)"
  shows "keeps_schedule m"
  using assms unfolding keeps_schedule_def by simp

lemma keeps_scheduleD:
  assumes "keeps_schedule m"
  shows "schedule_events (trace (snd (m w))) = schedule_events (trace w)"
  using assms unfolding keeps_schedule_def by simp

lemma keeps_schedule_only_execs:
  assumes "only_execs m"
  shows "keeps_schedule m"
proof (rule keeps_scheduleI)
  fix w :: world
  obtain cmds where c: "snd (m w) = w\<lparr>trace := trace w @ map Exec cmds\<rparr>"
    using assms by (rule only_execsD)
  have "schedule_events (map Exec cmds) = []"
    by (induction cmds) (simp_all add: schedule_events_def is_SetTimeout_def)
  with c show "schedule_events (trace (snd (m w))) = schedule_events (trace w)"
    by (simp add: schedule_events_append)
qed

lemma keeps_schedule_return: "keeps_schedule (return x)"
  by (rule keeps_schedule_only_execs) (rule only_execs_return)

lemma keeps_schedule_bind:
  assumes m: "keeps_schedule m" and f: "\<And>x. keeps_schedule (f x)"
  shows "keeps_schedule (bind m f)"
proof (rule keeps_scheduleI)
  fix w :: world
  show "schedule_events (trace (snd (bind m f w))) = schedule_events (trace w)"
  proof (cases "fst (m w)")
    case (Inl e)
    then show ?thesis by (simp add: bind_Inl keeps_scheduleD [OF m])
  next
    case (Inr x)
    then show ?thesis by (simp add: bind_Inr keeps_scheduleD [OF f] keeps_scheduleD [OF m])
  qed
qed

lemma keeps_schedule_try_catch:
  assumes m: "keeps_schedule m" and h: "\<And>e. keeps_schedule (h e)"
  shows "keeps_schedule (try_catch m h)"
proof (rule keeps_scheduleI)
  fix w :: world
  show "schedule_events (trace (snd (try_catch m h w))) = schedule_events (trace w)"
  proof (cases "fst (m w)")
    case (Inl e)
    then show ?thesis
      by (simp add: try_catch_Inl keeps_scheduleD [OF h] keeps_scheduleD [OF m])
  next
    case (Inr x)
    then show ?thesis by (simp add: try_catch_Inr keeps_scheduleD [OF m])
  qed
qed

lemma keeps_schedule_call:
  assumes "ev \<noteq> PassBegin" and "\<not> is_SetTimeout ev"
  shows "keeps_schedule (call ev outcome)"
proof (rule keeps_scheduleI)
  fix w :: world
  have "snd (call ev outcome w) = emit ev w" by (simp add: call_def split: option.splits)
  with assms show "schedule_events (trace (snd (call ev outcome w))) = schedule_events (trace w)"
    by (simp add: emit_def schedule_events_def)
qed

lemma keeps_schedule_check_one: "keeps_schedule (check_one opts p)"
proof -
  have a: "keeps_schedule (isPrinterEnabled (name p))"
    by (rule keeps_schedule_only_execs [OF only_execs_isPrinterEnabled])
  have r: "keeps_schedule (case onResume opts of
              Some f \<Rightarrow> call (OnResume (name p)) (f (name p))
            | None \<Rightarrow> return ())"
    by (cases "onResume opts")
       (simp_all add: keeps_schedule_return keeps_schedule_call is_SetTimeout_def)
  have b: "keeps_schedule (bind (enablePrinter (name p)) (\<lambda>_.
               (case onResume opts of
                  Some f \<Rightarrow> call (OnResume (name p)) (f (name p))
                | None \<Rightarrow> return ())))"
    by (rule keeps_schedule_bind [OF keeps_schedule_only_execs [OF only_execs_enablePrinter]])
       (rule r)
  show ?thesis unfolding check_one_def
    by (rule keeps_schedule_bind [OF a]) (simp add: b keeps_schedule_return)
qed

lemma check_each_Inl:
  "fst (check_one opts p w) = Inl e
   \<Longrightarrow> check_each opts (p # ps) w = (Inl e, snd (check_one opts p w))"
  by (cases "check_one opts p w") simp

lemma check_each_Inr:
  "fst (check_one opts p w) = Inr u
   \<Longrightarrow> check_each opts (p # ps) w = check_each opts ps (snd (check_one opts p w))"
  by (cases "check_one opts p w") simp

lemma keeps_schedule_check_each: "keeps_schedule (check_each opts ps)"
proof (rule keeps_scheduleI)
  fix w :: world
  show "schedule_events (trace (snd (check_each opts ps w))) = schedule_events (trace w)"
  proof (induction ps arbitrary: w)
    case Nil
    show ?case by simp
  next
    case (Cons p ps)
    have one: "schedule_events (trace (snd (check_one opts p w))) = schedule_events (trace w)"
      by (rule keeps_scheduleD [OF keeps_schedule_check_one])
    show ?case
    proof (cases "fst (check_one opts p w)")
      case (Inl e)
      with one show ?thesis by (simp add: check_each_Inl del: check_each.simps)
    next
      case (Inr u)
      with one Cons.IH [of "snd (check_one opts p w)"] show ?thesis
        by (simp add: check_each_Inr del: check_each.simps)
    qed
  qed
qed

lemma keeps_schedule_printersToCheck: "keeps_schedule (printersToCheck opts)"
proof -
  have "keeps_schedule (bind getAllPrinters (\<lambda>allPrinters. return (filter P allPrinters)))"
    for P :: "printer \<Rightarrow> bool"
    by (intro keeps_schedule_bind keeps_schedule_return
          keeps_schedule_only_execs [OF only_execs_getAllPrinters])
  then show ?thesis
    by (simp add: printersToCheck_def split: option.splits)
qed

lemma keeps_schedule_pass: "keeps_schedule (pass opts)"
  unfolding pass_def pass_try_def
proof (intro keeps_schedule_try_catch keeps_schedule_bind keeps_schedule_printersToCheck
             keeps_schedule_check_each)
  fix error :: error
  show "keeps_schedule (case onError opts of Some f \<Rightarrow> call (OnError error) (f error)
                                          | None \<Rightarrow> return ())"
    by (cases "onError opts")
       (simp_all add: keeps_schedule_return keeps_schedule_call is_SetTimeout_def)
qed

lemma stopped_step:
  assumes "\<not> isRunning s"
  shows "\<not> isRunning (step opts s a)"
    and "schedule_events (trace (os (step opts s a))) = schedule_events (trace (os s))"
proof -
  have p: "schedule_events (trace (snd (pass opts (os s)))) = schedule_events (trace (os s))"
    by (rule keeps_scheduleD [OF keeps_schedule_pass])
  have e: "check_end opts s =
             (case fst (pass opts (os s)) of
                Inl e \<Rightarrow> s\<lparr>in_flight := in_flight s - 1,
                            os := emit (Unhandled e) (snd (pass opts (os s)))\<rparr>
              | Inr _ \<Rightarrow> s\<lparr>in_flight := in_flight s - 1, os := snd (pass opts (os s))\<rparr>)"
    using assms by (simp add: check_end_def split_def split: sum.splits)
  have c: "\<not> isRunning (check_end opts s)
           \<and> schedule_events (trace (os (check_end opts s))) = schedule_events (trace (os s))"
    using assms p
    by (simp add: e emit_def schedule_events_append split: sum.splits)
       (simp add: schedule_events_def is_SetTimeout_def)
  from assms c show "\<not> isRunning (step opts s a)"
    by (cases a) (simp_all add: step_def check_begin_def)
  from assms c
  show "schedule_events (trace (os (step opts s a))) = schedule_events (trace (os s))"
    by (cases a) (simp_all add: step_def check_begin_def)
qed

lemma stopped_run:
  assumes "\<not> isRunning s"
  shows "\<not> isRunning (run opts s as)
       \<and> schedule_events (trace (os (run opts s as))) = schedule_events (trace (os s))"
  using assms
proof (induction as arbitrary: s)
  case Nil
  then show ?case by (simp add: run_def)
next
  case (Cons a as)
  have r: "run opts s (a # as) = run opts (step opts s a) as" by (simp add: run_def)
  from stopped_step [OF Cons.prems, of opts a] Cons.IH [of "step opts s a"]
  show ?case by (simp add: r)
qed

lemma passes_begun_schedule:
  "passes_begun s = length (filter (\<lambda>ev. ev = PassBegin) (schedule_events (trace (os s))))"
  by (simp add: passes_begun_def schedule_events_def conj_commute)
     (rule arg_cong [where f = length], rule filter_cong, auto)

lemma timeouts_set_schedule:
  "timeouts_set s = length (filter is_SetTimeout (schedule_events (trace (os s))))"
  by (simp add: timeouts_set_def schedule_events_def)
     (rule arg_cong [where f = length], rule filter_cong, auto)

section \<open>The first pass\<close>

lemma only_eventsI:
  assumes "\<And>w. \<exists>evs. snd (m w) = w\<lparr>trace := trace w @ evs\<rparr>"
  shows "only_events m"
  using assms unfolding only_events_def by simp

lemma only_eventsD:
  assumes "only_events m"
  obtains evs where "snd (m w) = w\<lparr>trace := trace w @ evs\<rparr>"
  using assms unfolding only_events_def by (elim allE [of _ w] exE)

lemma only_events_only_execs:
  assumes "only_execs m"
  shows "only_events m"
proof (rule only_eventsI)
  fix w :: world
  obtain cmds where "snd (m w) = w\<lparr>trace := trace w @ map Exec cmds\<rparr>"
    using assms by (rule only_execsD)
  then show "\<exists>evs. snd (m w) = w\<lparr>trace := trace w @ evs\<rparr>" by (rule exI)
qed

lemma only_events_return: "only_events (return x)"
  by (rule only_events_only_execs) (rule only_execs_return)

lemma only_events_call: "only_events (call ev outcome)"
proof (rule only_eventsI)
  fix w :: world
  have "snd (call ev outcome w) = w\<lparr>trace := trace w @ [ev]\<rparr>"
    by (simp add: call_def emit_def split: option.splits)
  then show "\<exists>evs. snd (call ev outcome w) = w\<lparr>trace := trace w @ evs\<rparr>" by (rule exI)
qed

lemma only_events_step:
  assumes "snd (m w) = w\<lparr>trace := trace w @ e1\<rparr>"
      and "snd (k (snd (m w))) = (snd (m w))\<lparr>trace := trace (snd (m w)) @ e2\<rparr>"
  shows "snd (k (snd (m w))) = w\<lparr>trace := trace w @ (e1 @ e2)\<rparr>"
  by (simp add: assms(2)) (simp add: assms(1))

lemma only_events_bind:
  assumes m: "only_events m" and f: "\<And>x. only_events (f x)"
  shows "only_events (bind m f)"
proof (rule only_eventsI)
  fix w :: world
  obtain e1 where e1: "snd (m w) = w\<lparr>trace := trace w @ e1\<rparr>"
    using m by (rule only_eventsD)
  show "\<exists>evs. snd (bind m f w) = w\<lparr>trace := trace w @ evs\<rparr>"
  proof (cases "fst (m w)")
    case (Inl e)
    then have "snd (bind m f w) = snd (m w)" by (simp add: bind_Inl)
    with e1 show ?thesis by (simp only: exI)
  next
    case (Inr x)
    obtain e2 where
      e2: "snd (f x (snd (m w))) = (snd (m w))\<lparr>trace := trace (snd (m w)) @ e2\<rparr>"
      using f by (rule only_eventsD)
    from Inr have "snd (bind m f w) = snd (f x (snd (m w)))"
      by (simp add: bind_Inr)
    also have "\<dots> = w\<lparr>trace := trace w @ (e1 @ e2)\<rparr>"
      using e1 e2 by (rule only_events_step)
    finally show ?thesis by (rule exI)
  qed
qed

lemma only_events_check_one: "only_events (check_one opts p)"
proof -
  have a: "only_events (isPrinterEnabled (name p))"
    by (rule only_events_only_execs [OF only_execs_isPrinterEnabled])
  have r: "only_events (case onResume opts of
              Some f \<Rightarrow> call (OnResume (name p)) (f (name p))
            | None \<Rightarrow> return ())"
    by (cases "onResume opts") (simp_all add: only_events_return only_events_call)
  have b: "only_events (bind (enablePrinter (name p)) (\<lambda>_.
               (case onResume opts of
                  Some f \<Rightarrow> call (OnResume (name p)) (f (name p))
                | None \<Rightarrow> return ())))"
    by (rule only_events_bind [OF only_events_only_execs [OF only_execs_enablePrinter]])
       (rule r)
  show ?thesis unfolding check_one_def
    by (rule only_events_bind [OF a]) (simp add: b only_events_return)
qed

lemma extends_step:
  assumes "snd (k w1) = w1\<lparr>trace := trace w1 @ e2\<rparr>"
  shows "\<exists>evs. trace (snd (k w1)) = trace w1 @ evs"
  by (simp add: assms)

lemma only_events_extends:
  assumes "only_events k"
  shows "\<exists>evs. trace (snd (k w1)) = trace w1 @ evs"
proof -
  obtain e2 where "snd (k w1) = w1\<lparr>trace := trace w1 @ e2\<rparr>"
    using assms by (rule only_eventsD)
  then show ?thesis by (rule extends_step)
qed

lemma only_events_check_each: "only_events (check_each opts ps)"
proof (rule only_eventsI)
  fix w :: world
  show "\<exists>evs. snd (check_each opts ps w) = w\<lparr>trace := trace w @ evs\<rparr>"
  proof (induction ps arbitrary: w)
    case Nil
    have "snd (check_each opts [] w) = w\<lparr>trace := trace w @ []\<rparr>" by simp
    then show ?case by (rule exI)
  next
    case (Cons p ps)
    obtain e1 where e1: "snd (check_one opts p w) = w\<lparr>trace := trace w @ e1\<rparr>"
      using only_events_check_one by (rule only_eventsD)
    show ?case
    proof (cases "fst (check_one opts p w)")
      case (Inl e)
      with e1 have "snd (check_each opts (p # ps) w) = w\<lparr>trace := trace w @ e1\<rparr>"
        by (simp add: check_each_Inl del: check_each.simps)
      then show ?thesis by (rule exI)
    next
      case (Inr u)
      from Cons.IH [of "snd (check_one opts p w)"] obtain e2 where
        e2: "snd (check_each opts ps (snd (check_one opts p w)))
               = (snd (check_one opts p w))\<lparr>trace := trace (snd (check_one opts p w)) @ e2\<rparr>"
        by (elim exE)
      from Inr have "snd (check_each opts (p # ps) w)
                       = snd (check_each opts ps (snd (check_one opts p w)))"
        by (simp add: check_each_Inr del: check_each.simps)
      also have "\<dots> = w\<lparr>trace := trace w @ (e1 @ e2)\<rparr>"
        using e1 e2 by (rule only_events_step)
      finally show ?thesis by (rule exI)
    qed
  qed
qed

lemma only_events_onError:
  "only_events (case onError opts of Some f \<Rightarrow> call (OnError error) (f error)
                                   | None \<Rightarrow> return ())"
  by (cases "onError opts") (simp_all add: only_events_return only_events_call)

lemma bind_extends:
  assumes "\<And>x. only_events (f x)"
  shows "\<exists>evs. trace (snd (bind m f w)) = trace (snd (m w)) @ evs"
proof (cases "fst (m w)")
  case (Inl e)
  then have "trace (snd (bind m f w)) = trace (snd (m w)) @ []" by (simp add: bind_Inl)
  then show ?thesis by (rule exI)
next
  case (Inr x)
  then have "snd (bind m f w) = snd (f x (snd (m w)))" by (simp add: bind_Inr)
  with only_events_extends [OF assms, of x "snd (m w)"] show ?thesis by simp
qed

lemma try_catch_extends:
  assumes "\<And>e. only_events (h e)"
  shows "\<exists>evs. trace (snd (try_catch m h w)) = trace (snd (m w)) @ evs"
proof (cases "fst (m w)")
  case (Inr x)
  then have "trace (snd (try_catch m h w)) = trace (snd (m w)) @ []"
    by (simp add: try_catch_Inr)
  then show ?thesis by (rule exI)
next
  case (Inl e)
  then have "snd (try_catch m h w) = snd (h e (snd (m w)))" by (simp add: try_catch_Inl)
  with only_events_extends [OF assms, of e "snd (m w)"] show ?thesis by simp
qed

lemma getAllPrinters_begins:
  "\<exists>evs. trace (snd (getAllPrinters w)) = trace w @ Exec ''lpstat -p -d'' # evs"
proof (cases "respond w (trace w) ''lpstat -p -d''")
  case (Inl e)
  then have "trace (snd (getAllPrinters w)) = trace w @ Exec ''lpstat -p -d'' # []"
    by (simp add: getAllPrinters_cases emit_def)
  then show ?thesis by (rule exI)
next
  case (Inr r)
  then have "trace (snd (getAllPrinters w))
               = trace w @ Exec ''lpstat -p -d'' # [Exec ''lpstat -v'']"
    by (simp add: getAllPrinters_cases emit_def split: sum.splits prod.splits)
  then show ?thesis by (rule exI)
qed

lemma printersToCheck_world: "snd (printersToCheck opts w) = snd (getAllPrinters w)"
proof -
  have "snd (bind getAllPrinters (\<lambda>allPrinters. return (filter P allPrinters)) w)
          = snd (getAllPrinters w)" for P :: "printer \<Rightarrow> bool"
    by (cases "fst (getAllPrinters w)") (simp_all add: bind_Inl bind_Inr return_def)
  then show ?thesis by (simp add: printersToCheck_def split: option.splits)
qed

lemma isPrinterEnabled_world:
  "snd (isPrinterEnabled n w) = emit (Exec (''lpstat -p '' @ dquote n)) w"
proof (cases "respond w (trace w) (''lpstat -p '' @ dquote n)")
  case (Inl e)
  then show ?thesis by (simp add: isPrinterEnabled_fail)
next
  case (Inr r)
  obtain out err where "r = (out, err)" by (cases r)
  with Inr have "respond w (trace w) (''lpstat -p '' @ dquote n) = Inr (out, err)" by simp
  then show ?thesis by (simp add: isPrinterEnabled_ok)
qed

lemma check_one_extends:
  "\<exists>evs. trace (snd (check_one opts p w))
           = trace w @ Exec (''lpstat -p '' @ dquote (name p)) # evs"
proof -
  have r: "only_events (case onResume opts of
              Some f \<Rightarrow> call (OnResume (name p)) (f (name p))
            | None \<Rightarrow> return ())"
    by (cases "onResume opts") (simp_all add: only_events_return only_events_call)
  have b: "only_events (bind (enablePrinter (name p)) (\<lambda>_.
               (case onResume opts of
                  Some f \<Rightarrow> call (OnResume (name p)) (f (name p))
                | None \<Rightarrow> return ())))"
    by (rule only_events_bind [OF only_events_only_execs [OF only_execs_enablePrinter]])
       (rule r)
  have "\<exists>evs. trace (snd (check_one opts p w))
                = trace (snd (isPrinterEnabled (name p) w)) @ evs"
    unfolding check_one_def
    by (rule bind_extends) (simp add: b only_events_return)
  then obtain e1 where
    "trace (snd (check_one opts p w)) = trace (snd (isPrinterEnabled (name p) w)) @ e1"
    by (elim exE)
  then have "trace (snd (check_one opts p w))
               = trace w @ Exec (''lpstat -p '' @ dquote (name p)) # e1"
    by (simp add: isPrinterEnabled_world emit_def)
  then show ?thesis by (rule exI)
qed

lemma check_each_begins:
  "\<exists>evs. trace (snd (check_each opts (p # ps) w))
           = trace w @ Exec (''lpstat -p '' @ dquote (name p)) # evs"
proof -
  obtain e1 where e1: "trace (snd (check_one opts p w))
                         = trace w @ Exec (''lpstat -p '' @ dquote (name p)) # e1"
    using check_one_extends [of opts p w] by (elim exE)
  have "\<exists>evs. trace (snd (check_each opts (p # ps) w))
                = trace (snd (check_one opts p w)) @ evs"
  proof (cases "fst (check_one opts p w)")
    case (Inl e)
    then have "trace (snd (check_each opts (p # ps) w)) = trace (snd (check_one opts p w)) @ []"
      by (simp add: check_each_Inl del: check_each.simps)
    then show ?thesis by (rule exI)
  next
    case (Inr u)
    then have "snd (check_each opts (p # ps) w)
                 = snd (check_each opts ps (snd (check_one opts p w)))"
      by (simp add: check_each_Inr del: check_each.simps)
    with only_events_extends [OF only_events_check_each, of opts ps "snd (check_one opts p w)"]
    show ?thesis by (simp del: check_each.simps)
  qed
  then obtain e2 where e2: "trace (snd (check_each opts (p # ps) w))
                              = trace (snd (check_one opts p w)) @ e2"
    by (elim exE)
  have "trace (snd (check_each opts (p # ps) w))
          = trace w @ Exec (''lpstat -p '' @ dquote (name p)) # (e1 @ e2)"
    by (simp add: e2 e1 del: check_each.simps)
  then show ?thesis by (rule exI)
qed

lemma pass_extends:
  "\<exists>evs. trace (snd (pass opts w)) = trace (snd (pass_try opts w)) @ evs"
  unfolding pass_def by (rule try_catch_extends) (rule only_events_onError)

lemma pass_try_extends:
  "\<exists>evs. trace (snd (pass_try opts w)) = trace (snd (printersToCheck opts w)) @ evs"
  unfolding pass_try_def by (rule bind_extends) (rule only_events_check_each)

text \<open>A pass begins with the discovery, whatever the options and the spooler.\<close>

lemma pass_begins:
  "\<exists>evs. trace (snd (pass opts w)) = trace w @ Exec ''lpstat -p -d'' # evs"
proof -
  obtain e0 where
    e0: "trace (snd (printersToCheck opts w)) = trace w @ Exec ''lpstat -p -d'' # e0"
    using getAllPrinters_begins [of w] by (simp only: printersToCheck_world) (elim exE)
  obtain e1 where
    e1: "trace (snd (pass_try opts w)) = trace (snd (printersToCheck opts w)) @ e1"
    using pass_try_extends [of opts w] by (elim exE)
  obtain e2 where e2: "trace (snd (pass opts w)) = trace (snd (pass_try opts w)) @ e2"
    using pass_extends [of opts w] by (elim exE)
  have "trace (snd (pass opts w)) = trace w @ Exec ''lpstat -p -d'' # (e0 @ e1 @ e2)"
    by (simp add: e2 e1 e0)
  then show ?thesis by (rule exI)
qed

text \<open>With a printer to check, the pass goes on with the status query of the first one.\<close>

lemma pass_begins_candidate:
  assumes "printersToCheck opts w0 = (Inr (p # ps), w1)"
  shows "\<exists>evs. trace (snd (pass opts w0))
           = trace w1 @ Exec (''lpstat -p '' @ dquote (name p)) # evs"
proof -
  from assms have t: "pass_try opts w0 = check_each opts (p # ps) w1"
    by (simp add: pass_try_def bind_def)
  obtain e1 where
    e1: "trace (snd (pass_try opts w0))
           = trace w1 @ Exec (''lpstat -p '' @ dquote (name p)) # e1"
    using check_each_begins [of opts p ps w1] by (simp only: t) (elim exE)
  obtain e2 where e2: "trace (snd (pass opts w0)) = trace (snd (pass_try opts w0)) @ e2"
    using pass_extends [of opts w0] by (elim exE)
  have "trace (snd (pass opts w0))
          = trace w1 @ Exec (''lpstat -p '' @ dquote (name p)) # (e1 @ e2)"
    by (simp add: e2 e1)
  then show ?thesis by (rule exI)
qed

text \<open>The end of a pass: what the pass did, then the timeout or the escaped exception.\<close>

lemma check_end_in_flight: "in_flight (check_end opts s) = in_flight s - 1"
  by (cases "pass opts (os s)") (simp add: check_end_def split: sum.splits)

lemma check_end_running:
  assumes "isRunning s"
  shows "trace (os (check_end opts s))
           = trace (snd (pass opts (os s)))
             @ [case fst (pass opts (os s)) of
                  Inl e \<Rightarrow> Unhandled e | Inr u \<Rightarrow> SetTimeout (interval_of opts)]"
proof (cases "pass opts (os s)")
  case (Pair r w')
  then show ?thesis using assms
    by (cases r) (simp_all add: check_end_def emit_def)
qed

lemma check_end_stopped:
  assumes "\<not> isRunning s"
  shows "trace (os (check_end opts s))
           = trace (snd (pass opts (os s)))
             @ (case fst (pass opts (os s)) of Inl e \<Rightarrow> [Unhandled e] | Inr u \<Rightarrow> [])"
proof (cases "pass opts (os s)")
  case (Pair r w')
  then show ?thesis using assms
    by (cases r) (simp_all add: check_end_def emit_def)
qed

lemma started:
  "watchAndResumePrinters opts w
     = \<lparr>isRunning = True, timers = 0, in_flight = 1, os = emit PassBegin w\<rparr>"
  by (simp add: watchAndResumePrinters_def check_begin_def)

lemma first_pass_ends:
  "step opts (watchAndResumePrinters opts w) PassCompletes
     = check_end opts (watchAndResumePrinters opts w)"
  by (simp add: step_def started)

lemma first_pass_ends_stopped:
  "run opts (step opts (watchAndResumePrinters opts w) Stop) [PassCompletes]
     = check_end opts
         \<lparr>isRunning = False, timers = 0, in_flight = 1, os = emit PassBegin w\<rparr>"
  by (simp add: run_def step_def started)

text \<open>The pass of the example spooler with three USB printers, from any trace.\<close>

lemma flaky_pass:
  assumes "respond w = flaky_respond"
  shows "pass quiet_options w
           = (Inr (), w\<lparr>trace := trace w @ [Exec ''lpstat -p -d'', Exec ''lpstat -v'',
                                Exec (''lpstat -p '' @ dquote ''Canon_XK130''),
                                Exec (''lpstat -p '' @ dquote ''Brother_QL'')]\<rparr>)"
proof -
  define w0 where "w0 = w\<lparr>trace := trace w @ [Exec ''lpstat -p -d'', Exec ''lpstat -v'']\<rparr>"
  define w1 where "w1 = emit (Exec (''lpstat -p '' @ dquote ''Canon_XK130'')) w0"
  define w2 where "w2 = emit (Exec (''lpstat -p '' @ dquote ''Brother_QL'')) w1"
  have r: "respond w0 = flaky_respond" "respond w1 = flaky_respond"
    by (simp_all add: w0_def w1_def emit_def assms)
  have c: "printersToCheck quiet_options w =
     (Inr [usb_printer ''Canon_XK130'' ''usb://Canon/XK130'',
           usb_printer ''Brother_QL'' ''usb://Brother/QL'',
           usb_printer ''Zebra_ZD'' ''usb://Zebra/ZD''], w0)"
    unfolding w0_def
    by (simp add: printersToCheck_def quiet_options_def bind_def flaky_discovery [OF assms]
          return_def)
       (simp add: usb_printer_def)
  have h2: "check_one quiet_options (usb_printer ''Canon_XK130'' ''usb://Canon/XK130'') w0
              = (Inr (), w1)"
    by (simp add: flaky_canon_ok [OF r(1)] w1_def)
  have h3: "check_one quiet_options (usb_printer ''Brother_QL'' ''usb://Brother/QL'') w1
              = (Inl (Error None ''Failed to check printer status: Command failed: lpstat''), w2)"
    by (simp add: flaky_brother_fails [OF r(2)] w2_def)
  have "pass_try quiet_options w
          = (Inl (Error None ''Failed to check printer status: Command failed: lpstat''), w2)"
    by (simp add: pass_try_def bind_def c h2 h3)
  then have "pass quiet_options w = (Inr (), w2)"
    by (simp add: pass_def try_catch_def quiet_options_def return_def)
  moreover have "w2 = w\<lparr>trace := trace w @ [Exec ''lpstat -p -d'', Exec ''lpstat -v'',
                                Exec (''lpstat -p '' @ dquote ''Canon_XK130''),
                                Exec (''lpstat -p '' @ dquote ''Brother_QL'')]\<rparr>"
    by (simp add: w2_def w1_def w0_def emit_def)
  ultimately show ?thesis by (simp only:)
qed

lemma flaky_candidates_started:
  "printersToCheck quiet_options (emit PassBegin flaky_world) =
     (Inr (usb_printer ''Canon_XK130'' ''usb://Canon/XK130''
           # [usb_printer ''Brother_QL'' ''usb://Brother/QL'',
              usb_printer ''Zebra_ZD'' ''usb://Zebra/ZD'']),
      flaky_world\<lparr>trace := [PassBegin, Exec ''lpstat -p -d'', Exec ''lpstat -v'']\<rparr>)"
proof -
  have r: "respond (emit PassBegin flaky_world) = flaky_respond"
    "trace (emit PassBegin flaky_world) = [PassBegin]"
    by (simp_all add: flaky_world_def canon_world_def emit_def)
  show ?thesis
    by (simp add: printersToCheck_def quiet_options_def bind_def flaky_discovery [OF r(1)]
          return_def r(2))
       (simp add: usb_printer_def emit_def)
qed

text \<open>
  C6. Starting the watcher begins one pass at once, and that pass runs: when it completes,
  the discovery command has been run first, then the status query of the first printer to
  check, if there is one, and after what the pass did comes the timeout for the next pass
  (or the exception that escaped the pass, and then no timeout). A pass in flight when the
  stop handle is called completes and sets no timeout. After the stop handle is called, in
  whatever order timeouts fire and a pass in flight completes, the flag stays cleared, no
  pass begins and no timeout is set.
\<close>

theorem stop_is_terminal:
  "isRunning (watchAndResumePrinters opts w)
   \<and> in_flight (watchAndResumePrinters opts w) = 1
   \<and> trace (os (watchAndResumePrinters opts w)) = trace w @ [PassBegin]
   \<and> in_flight (step opts (watchAndResumePrinters opts w) PassCompletes) = 0
   \<and> trace (os (step opts (watchAndResumePrinters opts w) PassCompletes))
       = trace (snd (pass opts (emit PassBegin w)))
         @ [case fst (pass opts (emit PassBegin w)) of
              Inl e \<Rightarrow> Unhandled e | Inr u \<Rightarrow> SetTimeout (interval_of opts)]
   \<and> (\<exists>evs. trace (os (step opts (watchAndResumePrinters opts w) PassCompletes))
              = trace w @ PassBegin # Exec ''lpstat -p -d'' # evs)
   \<and> (printersToCheck opts (emit PassBegin w) = (Inr (p # ps), w1) \<longrightarrow>
        (\<exists>evs. trace (os (step opts (watchAndResumePrinters opts w) PassCompletes))
               = trace w1 @ Exec (''lpstat -p '' @ dquote (name p)) # evs))
   \<and> trace (os (run opts (step opts (watchAndResumePrinters opts w) Stop) [PassCompletes]))
       = trace (snd (pass opts (emit PassBegin w)))
         @ (case fst (pass opts (emit PassBegin w)) of
              Inl e \<Rightarrow> [Unhandled e] | Inr u \<Rightarrow> [])
   \<and> \<not> isRunning (run opts (step opts s Stop) as)
   \<and> passes_begun (run opts (step opts s Stop) as) = passes_begun s
   \<and> timeouts_set (run opts (step opts s Stop) as) = timeouts_set s"
proof -
  let ?s0 = "watchAndResumePrinters opts w"
  let ?w0 = "emit PassBegin w"
  have start: "isRunning ?s0" "in_flight ?s0 = 1" "trace (os ?s0) = trace w @ [PassBegin]"
    by (simp_all add: started emit_def)
  have o: "os ?s0 = ?w0" by (simp add: started)
  have n: "in_flight (step opts ?s0 PassCompletes) = 0"
    by (simp add: first_pass_ends check_end_in_flight start(2))
  have t: "trace (os (step opts ?s0 PassCompletes))
             = trace (snd (pass opts ?w0))
               @ [case fst (pass opts ?w0) of
                    Inl e \<Rightarrow> Unhandled e | Inr u \<Rightarrow> SetTimeout (interval_of opts)]"
    using check_end_running [OF start(1), of opts] by (simp only: first_pass_ends o)
  obtain e0 where e0: "trace (snd (pass opts ?w0)) = trace ?w0 @ Exec ''lpstat -p -d'' # e0"
    using pass_begins [of opts ?w0] by (elim exE)
  have "trace (os (step opts ?s0 PassCompletes))
          = trace w @ PassBegin # Exec ''lpstat -p -d''
            # (e0 @ [case fst (pass opts ?w0) of
                       Inl e \<Rightarrow> Unhandled e | Inr u \<Rightarrow> SetTimeout (interval_of opts)])"
    unfolding t e0 by (simp add: emit_def)
  then have d: "\<exists>evs. trace (os (step opts ?s0 PassCompletes))
                  = trace w @ PassBegin # Exec ''lpstat -p -d'' # evs"
    by (rule exI)
  have c: "printersToCheck opts ?w0 = (Inr (p # ps), w1) \<longrightarrow>
        (\<exists>evs. trace (os (step opts ?s0 PassCompletes))
               = trace w1 @ Exec (''lpstat -p '' @ dquote (name p)) # evs)"
  proof
    assume a: "printersToCheck opts ?w0 = (Inr (p # ps), w1)"
    obtain e1 where
      e1: "trace (snd (pass opts ?w0))
             = trace w1 @ Exec (''lpstat -p '' @ dquote (name p)) # e1"
      using pass_begins_candidate [OF a] by (elim exE)
    have "trace (os (step opts ?s0 PassCompletes))
            = trace w1 @ Exec (''lpstat -p '' @ dquote (name p))
              # (e1 @ [case fst (pass opts ?w0) of
                         Inl e \<Rightarrow> Unhandled e | Inr u \<Rightarrow> SetTimeout (interval_of opts)])"
      unfolding t e1 by simp
    then show "\<exists>evs. trace (os (step opts ?s0 PassCompletes))
               = trace w1 @ Exec (''lpstat -p '' @ dquote (name p)) # evs"
      by (rule exI)
  qed
  have f: "trace (os (run opts (step opts ?s0 Stop) [PassCompletes]))
       = trace (snd (pass opts ?w0))
         @ (case fst (pass opts ?w0) of Inl e \<Rightarrow> [Unhandled e] | Inr u \<Rightarrow> [])"
    using check_end_stopped
            [of "\<lparr>isRunning = False, timers = 0, in_flight = 1, os = ?w0\<rparr>" opts]
    by (simp add: first_pass_ends_stopped)
  have st: "\<not> isRunning (step opts s Stop)" "os (step opts s Stop) = os s"
    by (simp_all add: step_def)
  from stopped_run [OF st(1), of opts as] st(2)
  have "\<not> isRunning (run opts (step opts s Stop) as)"
    and "schedule_events (trace (os (run opts (step opts s Stop) as)))
           = schedule_events (trace (os s))"
    by simp_all
  then have "\<not> isRunning (run opts (step opts s Stop) as)"
    and "passes_begun (run opts (step opts s Stop) as) = passes_begun s"
    and "timeouts_set (run opts (step opts s Stop) as) = timeouts_set s"
    by (simp_all add: passes_begun_schedule timeouts_set_schedule)
  with start n t d c f show ?thesis by (intro conjI)
qed

theorem stop_is_terminal_witness:
  "printersToCheck quiet_options (emit PassBegin flaky_world) =
     (Inr (usb_printer ''Canon_XK130'' ''usb://Canon/XK130''
           # [usb_printer ''Brother_QL'' ''usb://Brother/QL'',
              usb_printer ''Zebra_ZD'' ''usb://Zebra/ZD'']),
      flaky_world\<lparr>trace := [PassBegin, Exec ''lpstat -p -d'', Exec ''lpstat -v'']\<rparr>)
   \<and> trace (os (step quiet_options (watchAndResumePrinters quiet_options flaky_world)
                  PassCompletes))
       = [PassBegin, Exec ''lpstat -p -d'', Exec ''lpstat -v'',
          Exec (''lpstat -p '' @ dquote ''Canon_XK130''),
          Exec (''lpstat -p '' @ dquote ''Brother_QL''), SetTimeout 1000]
   \<and> in_flight (step quiet_options (watchAndResumePrinters quiet_options flaky_world)
                  PassCompletes) = 0
   \<and> trace (os (run quiet_options
         (step quiet_options (watchAndResumePrinters quiet_options flaky_world) Stop)
         [PassCompletes]))
       = [PassBegin, Exec ''lpstat -p -d'', Exec ''lpstat -v'',
          Exec (''lpstat -p '' @ dquote ''Canon_XK130''),
          Exec (''lpstat -p '' @ dquote ''Brother_QL'')]
   \<and> \<not> isRunning (run quiet_options
         (step quiet_options
            (step quiet_options (watchAndResumePrinters quiet_options flaky_world)
               PassCompletes) Stop)
         [TimerFires, PassCompletes, TimerFires])
   \<and> passes_begun (run quiet_options
         (step quiet_options
            (step quiet_options (watchAndResumePrinters quiet_options flaky_world)
               PassCompletes) Stop)
         [TimerFires, PassCompletes, TimerFires]) = 1
   \<and> timeouts_set (run quiet_options
         (step quiet_options
            (step quiet_options (watchAndResumePrinters quiet_options flaky_world)
               PassCompletes) Stop)
         [TimerFires, PassCompletes, TimerFires]) = 1"
proof -
  let ?s0 = "watchAndResumePrinters quiet_options flaky_world"
  let ?s1 = "step quiet_options ?s0 PassCompletes"
  have r: "respond (emit PassBegin flaky_world) = flaky_respond"
    "trace (emit PassBegin flaky_world) = [PassBegin]"
    by (simp_all add: flaky_world_def canon_world_def emit_def)
  have i: "interval_of quiet_options = 1000"
    by (simp add: interval_of_def quiet_options_def)
  note p = flaky_pass [OF r(1)]
  note inst = stop_is_terminal [where opts = quiet_options and w = flaky_world
      and p = "usb_printer ''Canon_XK130'' ''usb://Canon/XK130''"
      and ps = "[usb_printer ''Brother_QL'' ''usb://Brother/QL'',
                 usb_printer ''Zebra_ZD'' ''usb://Zebra/ZD'']"
      and ?w1.0 = "flaky_world\<lparr>trace := [PassBegin, Exec ''lpstat -p -d'',
                                          Exec ''lpstat -v'']\<rparr>"
      and s = "?s1" and as = "[TimerFires, PassCompletes, TimerFires]"]
  from inst have t1: "trace (os ?s1)
       = [PassBegin, Exec ''lpstat -p -d'', Exec ''lpstat -v'',
          Exec (''lpstat -p '' @ dquote ''Canon_XK130''),
          Exec (''lpstat -p '' @ dquote ''Brother_QL''), SetTimeout 1000]"
    by (simp add: p r(2) i)
  from inst have n: "in_flight ?s1 = 0" by (elim conjE)
  from inst have t2: "trace (os (run quiet_options (step quiet_options ?s0 Stop)
                                  [PassCompletes]))
       = [PassBegin, Exec ''lpstat -p -d'', Exec ''lpstat -v'',
          Exec (''lpstat -p '' @ dquote ''Canon_XK130''),
          Exec (''lpstat -p '' @ dquote ''Brother_QL'')]"
    by (simp add: p r(2))
  have b: "passes_begun ?s1 = 1" "timeouts_set ?s1 = 1"
    by (simp_all add: passes_begun_def timeouts_set_def t1 is_SetTimeout_def)
  from inst b have s: "\<not> isRunning (run quiet_options (step quiet_options ?s1 Stop)
                                     [TimerFires, PassCompletes, TimerFires])"
    "passes_begun (run quiet_options (step quiet_options ?s1 Stop)
                     [TimerFires, PassCompletes, TimerFires]) = 1"
    "timeouts_set (run quiet_options (step quiet_options ?s1 Stop)
                     [TimerFires, PassCompletes, TimerFires]) = 1"
    by simp_all
  from flaky_candidates_started t1 n t2 s show ?thesis by (intro conjI)
qed

end
